theory Spec2Isabelle
  imports Main "HOL-Library.Multiset"
begin

section \<open>Data model\<close>

text \<open>
  The scoring engine (\<^verbatim>\<open>services/scoringEngine.js\<close>) works on four Mongoose collections
  and one outgoing channel. A collection is a list of documents in natural (insertion)
  order. An ObjectId is a string, a \<^verbatim>\<open>Date\<close> is its number of milliseconds since the
  epoch, a score or a point value is an integer.
\<close>

type_synonym object_id = string
type_synonym date = int

text \<open>\<^verbatim>\<open>models/Lead.js\<close>: the fields the engine reads or writes.\<close>

record lead =
  lead_id :: object_id
  lead_name :: string
  lead_email :: string
  currentScore :: int
  lead_updatedAt :: date

text \<open>\<^verbatim>\<open>models/Event.js\<close>.\<close>

record event =
  eventId :: string
  eventType :: string
  leadId :: object_id
  timestamp :: date
  metadata :: string
  processed :: bool
  processedAt :: "date option"
  createdAt :: date

text \<open>\<^verbatim>\<open>models/ScoreHistory.js\<close>; \<open>sh_createdAt\<close> is the schema's
  \<^verbatim>\<open>createdAt: { type: Date, default: Date.now }\<close>.\<close>

record scoreHistory =
  sh_leadId :: object_id
  sh_score :: int
  sh_previousScore :: int
  sh_change :: int
  sh_eventId :: string
  sh_eventType :: string
  sh_reason :: string
  sh_timestamp :: date
  sh_createdAt :: date

text \<open>\<^verbatim>\<open>models/ScoringRule.js\<close>.\<close>

record scoringRule =
  rule_eventType :: string
  points :: int
  active :: bool
  description :: string

text \<open>The argument of \<^verbatim>\<open>processEvent\<close>: \<^verbatim>\<open>timestamp\<close> and \<^verbatim>\<open>metadata\<close> may be absent.\<close>

record eventData =
  ed_eventId :: string
  ed_eventType :: string
  ed_leadId :: object_id
  ed_timestamp :: "date option"
  ed_metadata :: "string option"

text \<open>The object handed to \<^verbatim>\<open>emitScoreUpdate\<close>; the in-order call site passes no
  \<^verbatim>\<open>outOfOrder\<close> key.\<close>

record scoreUpdate =
  u_leadId :: object_id
  u_leadName :: string
  u_leadEmail :: string
  u_previousScore :: int
  u_newScore :: int
  u_change :: int
  u_eventType :: string
  u_timestamp :: date
  u_outOfOrder :: "bool option"

text \<open>The persistent store, and the sequence of calls made to \<^verbatim>\<open>emitScoreUpdate\<close>.\<close>

record store =
  leads :: "lead list"
  events :: "event list"
  history :: "scoreHistory list"
  rules :: "scoringRule list"
  emitted :: "scoreUpdate list"

text \<open>What \<^verbatim>\<open>processEvent\<close> returns, and what it throws; a \<open>ValidationError\<close> carries
  the paths that failed the schema's validators.\<close>

datatype processResult =
  DuplicateR
| OutOfOrderR object_id int int int string
| InOrderR object_id int int int string

datatype error =
  LeadNotFound object_id
| NoActiveRule string
| ValidationError "string list"
| ReferenceError string

record recalcResult =
  rc_leadId :: object_id
  rc_previousScore :: int
  rc_newScore :: int
  eventsProcessed :: nat

section \<open>Configuration and formatting\<close>

text \<open>\<^verbatim>\<open>const MAX_SCORE = parseInt(process.env.MAX_SCORE) || 1000\<close>: the argument is
  the parsed environment value, \<open>None\<close> for \<^verbatim>\<open>NaN\<close>; zero is falsy. The engine's
  functions below take the value of this constant as their first argument \<open>mx\<close>, and the
  reading of the clock as their second.\<close>

definition MAX_SCORE :: "int option \<Rightarrow> int" where
  "MAX_SCORE env = (case env of None \<Rightarrow> 1000 | Some n \<Rightarrow> if n = 0 then 1000 else n)"

fun digits :: "nat \<Rightarrow> string" where
  "digits n = (if n < 10 then [char_of (48 + n)]
               else digits (n div 10) @ [char_of (48 + n mod 10)])"

declare digits.simps [simp del]

text \<open>A template literal's rendering of an integer.\<close>

definition number_to_string :: "int \<Rightarrow> string" where
  "number_to_string i = (if i < 0 then CHR ''-'' # digits (nat (- i)) else digits (nat i))"

text \<open>\<^verbatim>\<open>`${eventType} (+${rule.points} points)`\<close>\<close>

definition reason_text :: "string \<Rightarrow> int \<Rightarrow> string" where
  "reason_text et p = et @ '' (+'' @ number_to_string p @ '' points)''"

section \<open>Store queries and writes\<close>

text \<open>\<^verbatim>\<open>Event.findOne({ eventId })\<close>\<close>

definition Event_findOne :: "event list \<Rightarrow> string \<Rightarrow> event option" where
  "Event_findOne evs eid = find (\<lambda>e. eventId e = eid) evs"

text \<open>\<^verbatim>\<open>Lead.findById(leadId)\<close>\<close>

definition Lead_findById :: "lead list \<Rightarrow> object_id \<Rightarrow> lead option" where
  "Lead_findById ls lid = find (\<lambda>l. lead_id l = lid) ls"

text \<open>\<^verbatim>\<open>ScoringRule.findOne({ eventType, active: true })\<close>\<close>

definition ScoringRule_findOne :: "scoringRule list \<Rightarrow> string \<Rightarrow> scoringRule option" where
  "ScoringRule_findOne rs et = find (\<lambda>r. rule_eventType r = et \<and> active r) rs"

text \<open>\<^verbatim>\<open>ScoreHistory.findOne({ leadId }).sort({ timestamp: -1 }).limit(1)\<close>: a row of
  the lead with the greatest timestamp (among equal timestamps, the first in natural
  order; only its timestamp is read).\<close>

fun latest_row :: "scoreHistory option \<Rightarrow> scoreHistory list \<Rightarrow> scoreHistory option" where
  "latest_row acc [] = acc"
| "latest_row None (h # hs) = latest_row (Some h) hs"
| "latest_row (Some a) (h # hs) =
     latest_row (if sh_timestamp a < sh_timestamp h then Some h else Some a) hs"

definition ScoreHistory_latest :: "scoreHistory list \<Rightarrow> object_id \<Rightarrow> scoreHistory option" where
  "ScoreHistory_latest hs lid = latest_row None (filter (\<lambda>h. sh_leadId h = lid) hs)"

text \<open>\<^verbatim>\<open>Event.find({ leadId, processed: true }).sort({ timestamp: 1 })\<close>: the store
  returns the matching events in ascending timestamp order. The query names no second
  key and the Event schema has no sequence field, so the order among events with equal
  timestamps is the store's own; the store's sort is the parameter \<open>srt\<close>.\<close>

definition Event_find_processed_by ::
  "(event list \<Rightarrow> event list) \<Rightarrow> event list \<Rightarrow> object_id \<Rightarrow> event list" where
  "Event_find_processed_by srt evs lid = srt (filter (\<lambda>e. leadId e = lid \<and> processed e) evs)"

text \<open>The same query on a store that returns equal timestamps in natural order.\<close>

definition Event_find_processed :: "event list \<Rightarrow> object_id \<Rightarrow> event list" where
  "Event_find_processed evs lid = Event_find_processed_by (sort_key timestamp) evs lid"

text \<open>\<^verbatim>\<open>doc.save()\<close> on a document that was read from its collection replaces that
  document, the first one with its key.\<close>

fun Event_save :: "event list \<Rightarrow> event \<Rightarrow> event list" where
  "Event_save [] e = []"
| "Event_save (x # xs) e = (if eventId x = eventId e then e # xs else x # Event_save xs e)"

fun Lead_save :: "lead list \<Rightarrow> lead \<Rightarrow> lead list" where
  "Lead_save [] l = []"
| "Lead_save (x # xs) l = (if lead_id x = lead_id l then l # xs else x # Lead_save xs l)"

text \<open>\<^verbatim>\<open>ScoreHistory.deleteMany({ leadId })\<close> and \<^verbatim>\<open>ScoreHistory.insertMany(rows)\<close>\<close>

definition ScoreHistory_deleteMany :: "scoreHistory list \<Rightarrow> object_id \<Rightarrow> scoreHistory list" where
  "ScoreHistory_deleteMany hs lid = filter (\<lambda>h. sh_leadId h \<noteq> lid) hs"

definition ScoreHistory_insertMany :: "scoreHistory list \<Rightarrow> scoreHistory list \<Rightarrow> scoreHistory list" where
  "ScoreHistory_insertMany hs rows = hs @ rows"

section \<open>recalculateLeadScore\<close>

text \<open>The two guarded assignments that bound a score: first the ceiling, then the floor.\<close>

definition bound_score :: "int \<Rightarrow> int \<Rightarrow> int" where
  "bound_score mx t = (let t1 = (if t > mx then mx else t) in if t1 < 0 then 0 else t1)"

text \<open>The loop \<^verbatim>\<open>for (const event of events)\<close> with its two variables
  \<^verbatim>\<open>totalScore\<close> and \<^verbatim>\<open>newHistory\<close>.\<close>

fun replay ::
  "int \<Rightarrow> date \<Rightarrow> scoringRule list \<Rightarrow> object_id \<Rightarrow> event list \<Rightarrow> int \<Rightarrow> scoreHistory list
     \<Rightarrow> int \<times> scoreHistory list" where
  "replay mx now rs lid [] totalScore newHistory = (totalScore, newHistory)"
| "replay mx now rs lid (ev # evs) totalScore newHistory =
     (case ScoringRule_findOne rs (eventType ev) of
        None \<Rightarrow> replay mx now rs lid evs totalScore newHistory
      | Some rule \<Rightarrow>
          (let prevScore = totalScore;
               total = bound_score mx (totalScore + points rule)
           in replay mx now rs lid evs total
                (newHistory @
                 [\<lparr>sh_leadId = lid, sh_score = total, sh_previousScore = prevScore,
                   sh_change = total - prevScore, sh_eventId = eventId ev,
                   sh_eventType = eventType ev,
                   sh_reason = reason_text (eventType ev) (points rule),
                   sh_timestamp = timestamp ev, sh_createdAt = now\<rparr>])))"

text \<open>\<^verbatim>\<open>recalculateLeadScore\<close>, with the store's sort of line 194 as the parameter
  \<open>srt\<close>.\<close>

definition recalculateLeadScore_by ::
  "(event list \<Rightarrow> event list) \<Rightarrow> int \<Rightarrow> date \<Rightarrow> store \<Rightarrow> object_id
     \<Rightarrow> (error + recalcResult) \<times> store" where
  "recalculateLeadScore_by srt mx now s lid =
     (case Lead_findById (leads s) lid of
        None \<Rightarrow> (Inl (LeadNotFound lid), s)
      | Some ld \<Rightarrow>
          (let previousScore = currentScore ld;
               evs = Event_find_processed_by srt (events s) lid;
               (totalScore, newHistory) = replay mx now (rules s) lid evs 0 [];
               s1 = s\<lparr>history := ScoreHistory_deleteMany (history s) lid\<rparr>;
               s2 = (if length newHistory > 0
                     then s1\<lparr>history := ScoreHistory_insertMany (history s1) newHistory\<rparr>
                     else s1);
               s3 = s2\<lparr>leads := Lead_save (leads s2)
                                    (ld\<lparr>currentScore := totalScore, lead_updatedAt := now\<rparr>)\<rparr>
           in (Inr \<lparr>rc_leadId = lid, rc_previousScore = previousScore,
                     rc_newScore = totalScore, eventsProcessed = length evs\<rparr>, s3)))"

text \<open>\<^verbatim>\<open>recalculateLeadScore\<close> on a store that returns equal timestamps in natural
  order.\<close>

definition recalculateLeadScore ::
  "int \<Rightarrow> date \<Rightarrow> store \<Rightarrow> object_id \<Rightarrow> (error + recalcResult) \<times> store" where
  "recalculateLeadScore mx now s lid = recalculateLeadScore_by (sort_key timestamp) mx now s lid"

section \<open>processEvent\<close>

text \<open>The \<^verbatim>\<open>enum\<close> of \<^verbatim>\<open>eventType\<close> in \<^verbatim>\<open>models/Event.js\<close>.\<close>

definition validEventTypes :: "string list" where
  "validEventTypes =
     [''email_open'', ''page_view'', ''form_submission'', ''demo_request'', ''purchase'']"

text \<open>Lines 40 to 46: \<^verbatim>\<open>new Event({...})\<close>. In \<^verbatim>\<open>timestamp || new Date()\<close> a
  timestamp that is absent or the number 0 is falsy and gives way to the clock; the
  schema defaults fill \<^verbatim>\<open>processed\<close> and \<^verbatim>\<open>createdAt\<close>.\<close>

definition new_event :: "date \<Rightarrow> eventData \<Rightarrow> event" where
  "new_event now d =
     \<lparr>eventId = ed_eventId d, eventType = ed_eventType d, leadId = ed_leadId d,
       timestamp = (case ed_timestamp d of
                      Some t \<Rightarrow> if t = 0 then now else t
                    | None \<Rightarrow> now),
       metadata = (case ed_metadata d of Some m \<Rightarrow> m | None \<Rightarrow> ''{}''),
       processed = False, processedAt = None, createdAt = now\<rparr>"

text \<open>The validators of the Event schema that \<^verbatim>\<open>save()\<close> runs on a new document, as the
  list of the paths that fail: \<^verbatim>\<open>eventId\<close> is a required string, which the empty string
  is not, and \<^verbatim>\<open>eventType\<close> is required and must be in the enum. The other required
  paths always hold a value here: \<^verbatim>\<open>timestamp\<close> by line 44, and \<^verbatim>\<open>leadId\<close> is the id
  under which the lead was found.\<close>

definition Event_invalid_paths :: "event \<Rightarrow> string list" where
  "Event_invalid_paths e =
     (if eventId e = [] then [''eventId''] else []) @
     (if eventType e \<in> set validEventTypes then [] else [''eventType''])"

text \<open>Lines 36 to 48: the ledger record of the event, created and saved when the lookup
  found none; the save throws when the new document is invalid, and then nothing is
  written.\<close>

definition ledger_event :: "date \<Rightarrow> store \<Rightarrow> eventData \<Rightarrow> event option \<Rightarrow> error + event \<times> store" where
  "ledger_event now s d existingEvent =
     (case existingEvent of
        Some e \<Rightarrow> Inr (e, s)
      | None \<Rightarrow>
          (let e = new_event now d
           in if Event_invalid_paths e = []
              then Inr (e, s\<lparr>events := events s @ [e]\<rparr>)
              else Inl (ValidationError (Event_invalid_paths e))))"

text \<open>Lines 51 to 57.\<close>

definition isOutOfOrder :: "store \<Rightarrow> object_id \<Rightarrow> event \<Rightarrow> bool" where
  "isOutOfOrder s lid ev =
     (case ScoreHistory_latest (history s) lid of
        None \<Rightarrow> False
      | Some latestHistory \<Rightarrow> timestamp ev < sh_timestamp latestHistory)"

text \<open>Lines 59 to 92.\<close>

definition out_of_order_path ::
  "int \<Rightarrow> date \<Rightarrow> store \<Rightarrow> eventData \<Rightarrow> lead \<Rightarrow> event \<Rightarrow> (error + processResult) \<times> store" where
  "out_of_order_path mx now s d ld ev =
     (let s1 = s\<lparr>events := Event_save (events s)
                              (ev\<lparr>processed := True, processedAt := Some now\<rparr>)\<rparr>
      in case recalculateLeadScore mx now s1 (ed_leadId d) of
           (Inl err, s2) \<Rightarrow> (Inl err, s2)
         | (Inr recalcResult, s2) \<Rightarrow>
             (Inr (OutOfOrderR (lead_id ld) (rc_previousScore recalcResult)
                     (rc_newScore recalcResult)
                     (rc_newScore recalcResult - rc_previousScore recalcResult)
                     (ed_eventType d)),
              s2\<lparr>emitted := emitted s2 @
                   [\<lparr>u_leadId = lead_id ld, u_leadName = lead_name ld,
                     u_leadEmail = lead_email ld,
                     u_previousScore = rc_previousScore recalcResult,
                     u_newScore = rc_newScore recalcResult,
                     u_change = rc_newScore recalcResult - rc_previousScore recalcResult,
                     u_eventType = ed_eventType d, u_timestamp = timestamp ev,
                     u_outOfOrder = Some True\<rparr>]\<rparr>))"

text \<open>The identifier \<^verbatim>\<open>change\<close> is read on lines 112, 130 and 144. No declaration of
  it is in scope there: the parameters and locals of \<^verbatim>\<open>processEvent\<close> are
  \<^verbatim>\<open>eventData, eventId, eventType, leadId, timestamp, metadata, existingEvent, lead, rule,
  event, eventTimestamp, latestHistory, isOutOfOrder, previousScore, newScore,
  historyEntry\<close>, and the module binds \<^verbatim>\<open>Lead, Event, ScoreHistory, ScoringRule,
  emitScoreUpdate, MAX_SCORE, ScoringEngine\<close>. Reading it throws a ReferenceError.\<close>

definition change_binding :: "int option" where
  "change_binding = None"

text \<open>Lines 94 to 146. \<^verbatim>\<open>lead.save()\<close> on line 106 comes before the object literal of
  line 108 is evaluated.\<close>

definition in_order_path ::
  "int \<Rightarrow> date \<Rightarrow> store \<Rightarrow> eventData \<Rightarrow> lead \<Rightarrow> scoringRule \<Rightarrow> event
     \<Rightarrow> (error + processResult) \<times> store" where
  "in_order_path mx now s d ld rule ev =
     (let previousScore = currentScore ld;
          newScore = bound_score mx (previousScore + points rule);
          ld1 = ld\<lparr>currentScore := newScore, lead_updatedAt := now\<rparr>;
          s1 = s\<lparr>leads := Lead_save (leads s) ld1\<rparr>
      in case change_binding of
           None \<Rightarrow> (Inl (ReferenceError ''change''), s1)
         | Some change \<Rightarrow>
             (let historyEntry =
                    \<lparr>sh_leadId = lead_id ld1, sh_score = newScore,
                      sh_previousScore = previousScore, sh_change = change,
                      sh_eventId = ed_eventId d, sh_eventType = ed_eventType d,
                      sh_reason = reason_text (ed_eventType d) (points rule),
                      sh_timestamp = timestamp ev, sh_createdAt = now\<rparr>;
                  s2 = s1\<lparr>history := history s1 @ [historyEntry]\<rparr>;
                  s3 = s2\<lparr>events := Event_save (events s2)
                                       (ev\<lparr>processed := True, processedAt := Some now\<rparr>)\<rparr>;
                  s4 = s3\<lparr>emitted := emitted s3 @
                            [\<lparr>u_leadId = lead_id ld1, u_leadName = lead_name ld1,
                              u_leadEmail = lead_email ld1, u_previousScore = previousScore,
                              u_newScore = newScore, u_change = change,
                              u_eventType = ed_eventType d, u_timestamp = timestamp ev,
                              u_outOfOrder = None\<rparr>]\<rparr>
              in (Inr (InOrderR (lead_id ld1) previousScore newScore change (ed_eventType d)),
                  s4)))"

definition processEvent ::
  "int \<Rightarrow> date \<Rightarrow> store \<Rightarrow> eventData \<Rightarrow> (error + processResult) \<times> store" where
  "processEvent mx now s d =
     (let existingEvent = Event_findOne (events s) (ed_eventId d)
      in if (case existingEvent of Some e \<Rightarrow> processed e | None \<Rightarrow> False)
         then (Inr DuplicateR, s)
         else
           (case Lead_findById (leads s) (ed_leadId d) of
              None \<Rightarrow> (Inl (LeadNotFound (ed_leadId d)), s)
            | Some ld \<Rightarrow>
                (case ScoringRule_findOne (rules s) (ed_eventType d) of
                   None \<Rightarrow> (Inl (NoActiveRule (ed_eventType d)), s)
                 | Some rule \<Rightarrow>
                     (case ledger_event now s d existingEvent of
                        Inl err \<Rightarrow> (Inl err, s)
                      | Inr (ev, s1) \<Rightarrow>
                          if isOutOfOrder s1 (ed_leadId d) ev
                          then out_of_order_path mx now s1 d ld ev
                          else in_order_path mx now s1 d ld rule ev))))"

section \<open>The specification's vocabulary\<close>

text \<open>The specification's \<open>clamp(x, 0, MAX)\<close>.\<close>

definition clamp :: "int \<Rightarrow> int \<Rightarrow> int \<Rightarrow> int" where
  "clamp x lo hi = max lo (min hi x)"

text \<open>The specification's replay: from a starting score, apply each point value in turn,
  clamping at every step; the list of the scores reached.\<close>

fun running_scores :: "int \<Rightarrow> int \<Rightarrow> int list \<Rightarrow> int list" where
  "running_scores mx sc [] = []"
| "running_scores mx sc (p # ps) =
     clamp (sc + p) 0 mx # running_scores mx (clamp (sc + p) 0 mx) ps"

text \<open>The timestamp of the lead's most recent ScoreHistory entry: the greatest timestamp
  among the lead's rows, when the lead has any.\<close>

definition latest_timestamp :: "scoreHistory list \<Rightarrow> object_id \<Rightarrow> date option" where
  "latest_timestamp hs lid =
     (case filter (\<lambda>h. sh_leadId h = lid) hs of
        [] \<Rightarrow> None
      | r # rs \<Rightarrow> Some (Max (set (map sh_timestamp (r # rs)))))"

text \<open>What \<^verbatim>\<open>.sort({ timestamp: 1 })\<close> promises of the store's sort: the same documents,
  in ascending timestamp order. It promises nothing about equal timestamps.\<close>

definition sorts_by_timestamp :: "(event list \<Rightarrow> event list) \<Rightarrow> bool" where
  "sorts_by_timestamp srt =
     (\<forall>xs. mset (srt xs) = mset xs \<and> sorted (map timestamp (srt xs)))"

text \<open>A sort that keeps this promise and returns equal timestamps latest-stored first.\<close>

definition sort_ties_reversed :: "event list \<Rightarrow> event list" where
  "sort_ties_reversed xs = rev (sort_key (\<lambda>e. - timestamp e) xs)"

text \<open>The points of an event's rule, when an active rule for its type exists.\<close>

definition rule_points :: "scoringRule list \<Rightarrow> event \<Rightarrow> int option" where
  "rule_points rs ev = map_option points (ScoringRule_findOne rs (eventType ev))"

text \<open>The events that the replay scores: those whose type has an active rule.\<close>

definition scored_events :: "scoringRule list \<Rightarrow> event list \<Rightarrow> event list" where
  "scored_events rs evs = filter (\<lambda>e. ScoringRule_findOne rs (eventType e) \<noteq> None) evs"

section \<open>Example data\<close>

text \<open>The rule table that \<^verbatim>\<open>initializeScoringRules\<close> installs (\<^verbatim>\<open>active\<close> takes its
  schema default).\<close>

definition defaultRules :: "scoringRule list" where
  "defaultRules =
     [\<lparr>rule_eventType = ''email_open'', points = 10, active = True,
       description = ''Lead opened an email''\<rparr>,
      \<lparr>rule_eventType = ''page_view'', points = 5, active = True,
       description = ''Lead viewed a page''\<rparr>,
      \<lparr>rule_eventType = ''form_submission'', points = 20, active = True,
       description = ''Lead submitted a form''\<rparr>,
      \<lparr>rule_eventType = ''demo_request'', points = 50, active = True,
       description = ''Lead requested a demo''\<rparr>,
      \<lparr>rule_eventType = ''purchase'', points = 100, active = True,
       description = ''Lead made a purchase''\<rparr>]"

text \<open>A lead with two processed events, a purchase at time 10 and an earlier email
  open at time 4 that the ledger does not show yet.\<close>

definition demo_lead :: lead where
  "demo_lead = \<lparr>lead_id = ''L1'', lead_name = ''Alice'', lead_email = ''alice@techcorp.com'',
                currentScore = 100, lead_updatedAt = 11\<rparr>"

definition demo_purchase :: event where
  "demo_purchase = \<lparr>eventId = ''p1'', eventType = ''purchase'', leadId = ''L1'', timestamp = 10,
                    metadata = ''{}'', processed = True, processedAt = Some 11, createdAt = 11\<rparr>"

definition demo_open :: event where
  "demo_open = \<lparr>eventId = ''o1'', eventType = ''email_open'', leadId = ''L1'', timestamp = 4,
                metadata = ''{}'', processed = True, processedAt = Some 12, createdAt = 12\<rparr>"

definition demo_row :: scoreHistory where
  "demo_row = \<lparr>sh_leadId = ''L1'', sh_score = 100, sh_previousScore = 0, sh_change = 100,
               sh_eventId = ''p1'', sh_eventType = ''purchase'',
               sh_reason = ''purchase (+100 points)'', sh_timestamp = 10, sh_createdAt = 11\<rparr>"

definition demo_store :: store where
  "demo_store = \<lparr>leads = [demo_lead], events = [demo_purchase, demo_open], history = [demo_row],
                 rules = defaultRules, emitted = []\<rparr>"

text \<open>The same lead once the ledger shows both events: the most recent entry, at time
  10, is the second row.\<close>

definition settled_open_row :: scoreHistory where
  "settled_open_row =
     \<lparr>sh_leadId = ''L1'', sh_score = 10, sh_previousScore = 0, sh_change = 10,
       sh_eventId = ''o1'', sh_eventType = ''email_open'',
       sh_reason = ''email_open (+10 points)'', sh_timestamp = 4, sh_createdAt = 12\<rparr>"

definition settled_purchase_row :: scoreHistory where
  "settled_purchase_row =
     \<lparr>sh_leadId = ''L1'', sh_score = 110, sh_previousScore = 10, sh_change = 100,
       sh_eventId = ''p1'', sh_eventType = ''purchase'',
       sh_reason = ''purchase (+100 points)'', sh_timestamp = 10, sh_createdAt = 12\<rparr>"

definition settled_lead :: lead where
  "settled_lead = \<lparr>lead_id = ''L1'', lead_name = ''Alice'', lead_email = ''alice@techcorp.com'',
                   currentScore = 110, lead_updatedAt = 12\<rparr>"

definition settled_store :: store where
  "settled_store = \<lparr>leads = [settled_lead], events = [demo_purchase, demo_open],
                    history = [settled_open_row, settled_purchase_row],
                    rules = defaultRules, emitted = []\<rparr>"

section \<open>Invariants and runs\<close>

text \<open>Every stored score lies in \<open>[0, MAX]\<close>: each lead's \<open>currentScore\<close> and each
  ScoreHistory row's \<open>score\<close>.\<close>

definition scores_in_range :: "int \<Rightarrow> store \<Rightarrow> bool" where
  "scores_in_range mx s =
     (list_all (\<lambda>l. 0 \<le> currentScore l \<and> currentScore l \<le> mx) (leads s) \<and>
      list_all (\<lambda>h. 0 \<le> sh_score h \<and> sh_score h \<le> mx) (history s))"

text \<open>The operations that reach the store: an event handed to \<open>processEvent\<close>, a
  recalculation request, and a change of the rule table through the configuration
  interface; each engine call carries the clock reading it runs at.\<close>

datatype operation =
  ProcessEvent date eventData
| Recalculate date object_id
| ConfigureRules "scoringRule list"

fun apply_operation :: "int \<Rightarrow> store \<Rightarrow> operation \<Rightarrow> store" where
  "apply_operation mx s (ProcessEvent now d) = snd (processEvent mx now s d)"
| "apply_operation mx s (Recalculate now lid) = snd (recalculateLeadScore mx now s lid)"
| "apply_operation mx s (ConfigureRules rs) = s\<lparr>rules := rs\<rparr>"

text \<open>The rule table of the specification's order-sensitivity example, with a switched-off
  rule for page views added, and a lead that has no events yet.\<close>

definition offset_rules :: "scoringRule list" where
  "offset_rules =
     [\<lparr>rule_eventType = ''purchase'', points = 80, active = True,
       description = ''Lead made a purchase''\<rparr>,
      \<lparr>rule_eventType = ''email_open'', points = - 50, active = True,
       description = ''Lead opened an email''\<rparr>,
      \<lparr>rule_eventType = ''page_view'', points = 5, active = False,
       description = ''Lead viewed a page''\<rparr>]"

definition fresh_lead :: lead where
  "fresh_lead = \<lparr>lead_id = ''L2'', lead_name = ''Bob'', lead_email = ''bob@startupco.io'',
                 currentScore = 0, lead_updatedAt = 0\<rparr>"

definition fresh_store :: store where
  "fresh_store = \<lparr>leads = [fresh_lead], events = [], history = [], rules = offset_rules,
                  emitted = []\<rparr>"

definition purchase_at :: "string \<Rightarrow> date \<Rightarrow> eventData" where
  "purchase_at eid t = \<lparr>ed_eventId = eid, ed_eventType = ''purchase'', ed_leadId = ''L2'',
                        ed_timestamp = Some t, ed_metadata = None\<rparr>"

definition open_at :: "string \<Rightarrow> date \<Rightarrow> eventData" where
  "open_at eid t = \<lparr>ed_eventId = eid, ed_eventType = ''email_open'', ed_leadId = ''L2'',
                    ed_timestamp = Some t, ed_metadata = None\<rparr>"

text \<open>The lead of the order-sensitivity example with its two events processed, both
  carrying the timestamp 5; the purchase was stored first.\<close>

definition tied_purchase :: event where
  "tied_purchase = \<lparr>eventId = ''p'', eventType = ''purchase'', leadId = ''L2'', timestamp = 5,
                    metadata = ''{}'', processed = True, processedAt = Some 6, createdAt = 6\<rparr>"

definition tied_open :: event where
  "tied_open = \<lparr>eventId = ''o'', eventType = ''email_open'', leadId = ''L2'', timestamp = 5,
                metadata = ''{}'', processed = True, processedAt = Some 7, createdAt = 7\<rparr>"

definition tied_store :: store where
  "tied_store = \<lparr>leads = [fresh_lead], events = [tied_purchase, tied_open], history = [],
                 rules = offset_rules, emitted = []\<rparr>"

section \<open>Naming the stages of processEvent\<close>

text \<open>The duplicate test of lines 14 and 15; whether lines 36 to 48 get past the save
  (an event already in the ledger is not saved again there); and the event record and
  the store that they leave behind when they do.\<close>

definition is_duplicate :: "store \<Rightarrow> eventData \<Rightarrow> bool" where
  "is_duplicate s d =
     (case Event_findOne (events s) (ed_eventId d) of Some e \<Rightarrow> processed e | None \<Rightarrow> False)"

definition event_accepted :: "date \<Rightarrow> store \<Rightarrow> eventData \<Rightarrow> bool" where
  "event_accepted now s d =
     (case Event_findOne (events s) (ed_eventId d) of
        Some e \<Rightarrow> True
      | None \<Rightarrow> Event_invalid_paths (new_event now d) = [])"

definition the_event :: "date \<Rightarrow> store \<Rightarrow> eventData \<Rightarrow> event" where
  "the_event now s d =
     (case Event_findOne (events s) (ed_eventId d) of
        Some e \<Rightarrow> e
      | None \<Rightarrow> new_event now d)"

definition ledgered :: "date \<Rightarrow> store \<Rightarrow> eventData \<Rightarrow> store" where
  "ledgered now s d =
     (case Event_findOne (events s) (ed_eventId d) of
        Some e \<Rightarrow> s
      | None \<Rightarrow> s\<lparr>events := events s @ [new_event now d]\<rparr>)"


definition demo_open_at :: "string \<Rightarrow> date \<Rightarrow> eventData" where
  "demo_open_at eid t = \<lparr>ed_eventId = eid, ed_eventType = ''email_open'', ed_leadId = ''L1'',
                    ed_timestamp = Some t, ed_metadata = None\<rparr>"

text \<open>The store after lines 64 to 66 have marked the event processed.\<close>

definition marked_processed :: "date \<Rightarrow> store \<Rightarrow> eventData \<Rightarrow> store" where
  "marked_processed now s d =
     (ledgered now s d)\<lparr>events := Event_save (events (ledgered now s d))
        ((the_event now s d)\<lparr>processed := True, processedAt := Some now\<rparr>)\<rparr>"

text \<open>A ledger whose keys are in order for a delivery: eventIds are unique in the Event
  collection (its unique index), a record already stored under the delivery's eventId is for
  the same lead and type, and ScoreHistory rows that carry the eventId belong to that lead.\<close>

definition well_keyed :: "store \<Rightarrow> eventData \<Rightarrow> bool" where
  "well_keyed s d =
     (distinct (map eventId (events s)) \<and>
      (case Event_findOne (events s) (ed_eventId d) of
         None \<Rightarrow> True
       | Some e \<Rightarrow> leadId e = ed_leadId d \<and> eventType e = ed_eventType d) \<and>
      list_all (\<lambda>h. sh_eventId h = ed_eventId d \<longrightarrow> sh_leadId h = ed_leadId d) (history s))"

section \<open>Writes, one at a time\<close>

text \<open>The engine opens no transaction: each \<^verbatim>\<open>await\<close> on a write is a store operation
  of its own.\<close>

datatype store_write =
  DeleteHistory object_id
| InsertHistory "scoreHistory list"
| SaveLead lead

fun apply_write :: "store \<Rightarrow> store_write \<Rightarrow> store" where
  "apply_write s (DeleteHistory lid) = s\<lparr>history := ScoreHistory_deleteMany (history s) lid\<rparr>"
| "apply_write s (InsertHistory rows) = s\<lparr>history := ScoreHistory_insertMany (history s) rows\<rparr>"
| "apply_write s (SaveLead l) = s\<lparr>leads := Lead_save (leads s) l\<rparr>"

text \<open>The writes that \<open>recalculateLeadScore\<close> issues, in program order (lines 228, 231
  and 236). All of its reads come before the first write.\<close>

definition recalc_writes :: "int \<Rightarrow> date \<Rightarrow> store \<Rightarrow> object_id \<Rightarrow> store_write list" where
  "recalc_writes mx now s lid =
     (case Lead_findById (leads s) lid of
        None \<Rightarrow> []
      | Some ld \<Rightarrow>
          (let evs = Event_find_processed (events s) lid;
               (totalScore, newHistory) = replay mx now (rules s) lid evs 0 []
           in [DeleteHistory lid] @
              (if length newHistory > 0 then [InsertHistory newHistory] else []) @
              [SaveLead (ld\<lparr>currentScore := totalScore, lead_updatedAt := now\<rparr>)]))"

text \<open>The store that is left when \<open>recalculateLeadScore\<close> stops after \<open>k\<close> of its
  writes, because the next \<^verbatim>\<open>await\<close> rejects or the process dies.\<close>

definition recalc_interrupted :: "nat \<Rightarrow> int \<Rightarrow> date \<Rightarrow> store \<Rightarrow> object_id \<Rightarrow> store" where
  "recalc_interrupted k mx now s lid = foldl apply_write s (take k (recalc_writes mx now s lid))"

text \<open>The specification's ledger tail: the lead's ScoreHistory entry with the greatest
  (timestamp, sequence), the sequence being the position in the collection; and the score
  the specification expects the lead to have, 0 when the lead has no entry.\<close>

fun tail_row :: "scoreHistory option \<Rightarrow> scoreHistory list \<Rightarrow> scoreHistory option" where
  "tail_row acc [] = acc"
| "tail_row None (h # hs) = tail_row (Some h) hs"
| "tail_row (Some a) (h # hs) =
     tail_row (if sh_timestamp a \<le> sh_timestamp h then Some h else Some a) hs"

definition ledger_score :: "scoreHistory list \<Rightarrow> object_id \<Rightarrow> int" where
  "ledger_score hs lid =
     (case tail_row None (filter (\<lambda>h. sh_leadId h = lid) hs) of
        None \<Rightarrow> 0
      | Some h \<Rightarrow> sh_score h)"

definition score_matches_ledger :: "store \<Rightarrow> object_id \<Rightarrow> bool" where
  "score_matches_ledger s lid =
     (case Lead_findById (leads s) lid of
        None \<Rightarrow> True
      | Some l \<Rightarrow> currentScore l = ledger_score (history s) lid)"

section \<open>The store that keeps natural order\<close>

lemma Event_find_processed_eq:
  "Event_find_processed evs lid =
     sort_key timestamp (filter (\<lambda>e. leadId e = lid \<and> processed e) evs)"
  by (simp add: Event_find_processed_def Event_find_processed_by_def)

lemma recalculateLeadScore_eq:
  "recalculateLeadScore mx now s lid =
     (case Lead_findById (leads s) lid of
        None \<Rightarrow> (Inl (LeadNotFound lid), s)
      | Some ld \<Rightarrow>
          (let previousScore = currentScore ld;
               evs = Event_find_processed (events s) lid;
               (totalScore, newHistory) = replay mx now (rules s) lid evs 0 [];
               s1 = s\<lparr>history := ScoreHistory_deleteMany (history s) lid\<rparr>;
               s2 = (if length newHistory > 0
                     then s1\<lparr>history := ScoreHistory_insertMany (history s1) newHistory\<rparr>
                     else s1);
               s3 = s2\<lparr>leads := Lead_save (leads s2)
                                    (ld\<lparr>currentScore := totalScore, lead_updatedAt := now\<rparr>)\<rparr>
           in (Inr \<lparr>rc_leadId = lid, rc_previousScore = previousScore,
                     rc_newScore = totalScore, eventsProcessed = length evs\<rparr>, s3)))"
  unfolding recalculateLeadScore_def recalculateLeadScore_by_def Event_find_processed_def ..

section \<open>The replay loop\<close>

lemma bound_score_clamp: "bound_score mx t = clamp t 0 mx"
  by (simp add: bound_score_def clamp_def Let_def)

lemma bound_score_range: "0 \<le> mx \<Longrightarrow> 0 \<le> bound_score mx t \<and> bound_score mx t \<le> mx"
  by (simp add: bound_score_def Let_def)

text \<open>The history accumulator is only ever extended.\<close>

lemma replay_acc:
  "replay mx now rs lid evs t h =
     (fst (replay mx now rs lid evs t []), h @ snd (replay mx now rs lid evs t []))"
proof (induction evs arbitrary: t h)
  case Nil
  show ?case by simp
next
  case (Cons ev evs)
  show ?case
  proof (cases "ScoringRule_findOne rs (eventType ev)")
    case None
    then show ?thesis using Cons.IH [of t h] by simp
  next
    case (Some rule)
    let ?t = "bound_score mx (t + points rule)"
    let ?row = "\<lparr>sh_leadId = lid, sh_score = ?t, sh_previousScore = t,
                   sh_change = ?t - t, sh_eventId = eventId ev,
                   sh_eventType = eventType ev,
                   sh_reason = reason_text (eventType ev) (points rule),
                   sh_timestamp = timestamp ev, sh_createdAt = now\<rparr>"
    have a: "replay mx now rs lid (ev # evs) t h = replay mx now rs lid evs ?t (h @ [?row])"
      using Some by (simp add: Let_def)
    have b: "replay mx now rs lid (ev # evs) t [] = replay mx now rs lid evs ?t [?row]"
      using Some by (simp add: Let_def)
    show ?thesis
      unfolding a b using Cons.IH [of ?t "h @ [?row]"] Cons.IH [of ?t "[?row]"] by simp
  qed
qed

lemma replay_Cons_Some:
  assumes "ScoringRule_findOne rs (eventType ev) = Some rule"
  shows "replay mx now rs lid (ev # evs) t [] =
     (fst (replay mx now rs lid evs (bound_score mx (t + points rule)) []),
      \<lparr>sh_leadId = lid, sh_score = bound_score mx (t + points rule), sh_previousScore = t,
        sh_change = bound_score mx (t + points rule) - t, sh_eventId = eventId ev,
        sh_eventType = eventType ev,
        sh_reason = reason_text (eventType ev) (points rule),
        sh_timestamp = timestamp ev, sh_createdAt = now\<rparr>
      # snd (replay mx now rs lid evs (bound_score mx (t + points rule)) []))"
proof -
  have "replay mx now rs lid (ev # evs) t [] =
      replay mx now rs lid evs (bound_score mx (t + points rule))
        [\<lparr>sh_leadId = lid, sh_score = bound_score mx (t + points rule), sh_previousScore = t,
        sh_change = bound_score mx (t + points rule) - t, sh_eventId = eventId ev,
        sh_eventType = eventType ev,
        sh_reason = reason_text (eventType ev) (points rule),
        sh_timestamp = timestamp ev, sh_createdAt = now\<rparr>]"
    using assms by (simp add: Let_def)
  then show ?thesis
    by (subst (asm) replay_acc) simp
qed

lemma replay_scores:
  "map sh_score (snd (replay mx now rs lid evs t [])) =
     running_scores mx t (List.map_filter (rule_points rs) evs)"
proof (induction evs arbitrary: t)
  case Nil
  show ?case by (simp add: map_filter_simps)
next
  case (Cons ev evs)
  show ?case
  proof (cases "ScoringRule_findOne rs (eventType ev)")
    case None
    then show ?thesis using Cons.IH by (simp add: map_filter_simps rule_points_def)
  next
    case (Some rule)
    show ?thesis
      using Cons.IH
      by (simp del: replay.simps
          add: replay_Cons_Some [OF Some] map_filter_simps rule_points_def Some bound_score_clamp)
  qed
qed

lemma replay_total:
  "fst (replay mx now rs lid evs t []) =
     last (t # running_scores mx t (List.map_filter (rule_points rs) evs))"
proof (induction evs arbitrary: t)
  case Nil
  show ?case by (simp add: map_filter_simps)
next
  case (Cons ev evs)
  show ?case
  proof (cases "ScoringRule_findOne rs (eventType ev)")
    case None
    then show ?thesis using Cons.IH by (simp add: map_filter_simps rule_points_def)
  next
    case (Some rule)
    show ?thesis
      using Cons.IH
      by (simp del: replay.simps
          add: replay_Cons_Some [OF Some] map_filter_simps rule_points_def Some bound_score_clamp)
  qed
qed

lemma replay_rows_shape:
  "map (\<lambda>h. (sh_leadId h, sh_eventId h, sh_eventType h, sh_timestamp h, sh_createdAt h))
       (snd (replay mx now rs lid evs t [])) =
   map (\<lambda>e. (lid, eventId e, eventType e, timestamp e, now)) (scored_events rs evs)"
proof (induction evs arbitrary: t)
  case Nil
  show ?case by (simp add: scored_events_def)
next
  case (Cons ev evs)
  show ?case
  proof (cases "ScoringRule_findOne rs (eventType ev)")
    case None
    then show ?thesis using Cons.IH by (simp add: scored_events_def)
  next
    case (Some rule)
    show ?thesis
      using Cons.IH
      by (simp del: replay.simps add: replay_Cons_Some [OF Some] scored_events_def Some)
  qed
qed

lemma replay_previous:
  "map sh_previousScore (snd (replay mx now rs lid evs t [])) =
     butlast (t # map sh_score (snd (replay mx now rs lid evs t [])))"
proof (induction evs arbitrary: t)
  case Nil
  show ?case by simp
next
  case (Cons ev evs)
  show ?case
  proof (cases "ScoringRule_findOne rs (eventType ev)")
    case None
    then show ?thesis using Cons.IH by simp
  next
    case (Some rule)
    show ?thesis
      using Cons.IH
      by (simp del: replay.simps add: replay_Cons_Some [OF Some])
  qed
qed

lemma replay_change:
  "h \<in> set (snd (replay mx now rs lid evs t [])) \<Longrightarrow> sh_change h = sh_score h - sh_previousScore h"
proof (induction evs arbitrary: t)
  case Nil
  then show ?case by simp
next
  case (Cons ev evs)
  show ?case
  proof (cases "ScoringRule_findOne rs (eventType ev)")
    case None
    then show ?thesis using Cons by simp
  next
    case (Some rule)
    show ?thesis
      using Cons
      by (auto simp del: replay.simps simp add: replay_Cons_Some [OF Some])
  qed
qed

lemma replay_leadId:
  "h \<in> set (snd (replay mx now rs lid evs t [])) \<Longrightarrow> sh_leadId h = lid"
proof (induction evs arbitrary: t)
  case Nil
  then show ?case by simp
next
  case (Cons ev evs)
  show ?case
  proof (cases "ScoringRule_findOne rs (eventType ev)")
    case None
    then show ?thesis using Cons by simp
  next
    case (Some rule)
    show ?thesis
      using Cons
      by (auto simp del: replay.simps simp add: replay_Cons_Some [OF Some])
  qed
qed

lemma recalc_found:
  assumes "Lead_findById (leads s) lid = Some ld"
  shows "recalculateLeadScore mx now s lid =
     (Inr \<lparr>rc_leadId = lid, rc_previousScore = currentScore ld,
           rc_newScore = fst (replay mx now (rules s) lid (Event_find_processed (events s) lid) 0 []),
           eventsProcessed = length (Event_find_processed (events s) lid)\<rparr>,
      s\<lparr>history := ScoreHistory_deleteMany (history s) lid @
                     snd (replay mx now (rules s) lid (Event_find_processed (events s) lid) 0 []),
        leads := Lead_save (leads s)
                   (ld\<lparr>currentScore := fst (replay mx now (rules s) lid (Event_find_processed (events s) lid) 0 []),
                       lead_updatedAt := now\<rparr>)\<rparr>)"
  using assms
  by (simp add: recalculateLeadScore_eq Let_def ScoreHistory_insertMany_def split: prod.splits)

lemma Lead_findById_id: "Lead_findById ls lid = Some ld \<Longrightarrow> lead_id ld = lid"
  by (induction ls) (auto simp: Lead_findById_def split: if_splits)

lemma Lead_findById_save:
  "Lead_findById ls lid = Some ld \<Longrightarrow> lead_id ld' = lid \<Longrightarrow>
   Lead_findById (Lead_save ls ld') lid' = (if lid' = lid then Some ld' else Lead_findById ls lid')"
  by (induction ls) (auto simp: Lead_findById_def split: if_splits)

lemma recalc_missing:
  "Lead_findById (leads s) lid = None \<Longrightarrow>
   recalculateLeadScore mx now s lid = (Inl (LeadNotFound lid), s)"
  by (simp add: recalculateLeadScore_eq)

lemma filter_deleteMany_same [simp]:
  "filter (\<lambda>h. sh_leadId h = lid) (ScoreHistory_deleteMany hs lid) = []"
  by (induction hs) (auto simp: ScoreHistory_deleteMany_def)

lemma filter_deleteMany_other [simp]:
  "filter (\<lambda>h. sh_leadId h \<noteq> lid) (ScoreHistory_deleteMany hs lid) = filter (\<lambda>h. sh_leadId h \<noteq> lid) hs"
  by (induction hs) (auto simp: ScoreHistory_deleteMany_def)

lemma replay_filter_same:
  "filter (\<lambda>h. sh_leadId h = lid) (snd (replay mx now rs lid evs t [])) = snd (replay mx now rs lid evs t [])"
  by (rule filter_True) (simp add: replay_leadId)

lemma replay_filter_other:
  "filter (\<lambda>h. sh_leadId h \<noteq> lid) (snd (replay mx now rs lid evs t [])) = []"
  by (simp add: filter_empty_conv replay_leadId)

section \<open>Recalculation replays the ledger\<close>

lemma recalc_by_found:
  assumes "Lead_findById (leads s) lid = Some ld"
  shows "recalculateLeadScore_by srt mx now s lid =
     (Inr \<lparr>rc_leadId = lid, rc_previousScore = currentScore ld,
           rc_newScore = fst (replay mx now (rules s) lid (Event_find_processed_by srt (events s) lid) 0 []),
           eventsProcessed = length (Event_find_processed_by srt (events s) lid)\<rparr>,
      s\<lparr>history := ScoreHistory_deleteMany (history s) lid @
                     snd (replay mx now (rules s) lid (Event_find_processed_by srt (events s) lid) 0 []),
        leads := Lead_save (leads s)
                   (ld\<lparr>currentScore := fst (replay mx now (rules s) lid (Event_find_processed_by srt (events s) lid) 0 []),
                       lead_updatedAt := now\<rparr>)\<rparr>)"
  using assms
  by (simp add: recalculateLeadScore_by_def Let_def ScoreHistory_insertMany_def split: prod.splits)

lemma sorted_rev_neg:
  fixes f :: "'a \<Rightarrow> int"
  shows "sorted (map (\<lambda>e. - f e) ys) \<Longrightarrow> sorted (map f (rev ys))"
  by (induction ys) (auto simp: sorted_append)

lemma sort_ties_reversed_sorts: "sorts_by_timestamp sort_ties_reversed"
  unfolding sorts_by_timestamp_def sort_ties_reversed_def
  by (auto intro: sorted_rev_neg)

lemma sort_key_sorts: "sorts_by_timestamp (sort_key timestamp)"
  by (simp add: sorts_by_timestamp_def)

text \<open>
  Claim C4 as stated fails on the order in which the events are loaded. The lead's two
  processed events carry the same timestamp; the purchase was stored first, so the order
  by (timestamp, sequence) is purchase, email open, which replays to the scores 80, 30.
  The query sorts by timestamp only: on a store whose sort returns equal timestamps the
  other way round, \<open>recalculateLeadScore\<close> loads the email open first and regenerates the
  scores 0, 80, leaving the lead at 80 and not at 30.
\<close>

theorem tie_order_decides_replay:
  "map eventId (filter (\<lambda>e. leadId e = ''L2'' \<and> processed e) (events tied_store)) = [''p'', ''o'']
   \<and> map timestamp (filter (\<lambda>e. leadId e = ''L2'' \<and> processed e) (events tied_store)) = [5, 5]
   \<and> map eventId (Event_find_processed_by sort_ties_reversed (events tied_store) ''L2'') = [''o'', ''p'']
   \<and> map timestamp (Event_find_processed_by sort_ties_reversed (events tied_store) ''L2'') = [5, 5]
   \<and> map sh_score (history (snd (recalculateLeadScore_by sort_ties_reversed 100 9 tied_store ''L2''))) = [0, 80]
   \<and> map currentScore (leads (snd (recalculateLeadScore_by sort_ties_reversed 100 9 tied_store ''L2''))) = [80]
   \<and> map sh_score (history (snd (recalculateLeadScore_by (sort_key timestamp) 100 9 tied_store ''L2''))) = [80, 30]
   \<and> map currentScore (leads (snd (recalculateLeadScore_by (sort_key timestamp) 100 9 tied_store ''L2''))) = [30]"
  by (simp add: recalculateLeadScore_by_def Event_find_processed_by_def sort_ties_reversed_def
      tied_store_def tied_purchase_def tied_open_def fresh_lead_def offset_rules_def
      Lead_findById_def ScoringRule_findOne_def ScoreHistory_deleteMany_def
      ScoreHistory_insertMany_def bound_score_def Let_def)

text \<open>
  Claim C4 as amended. For a lead that exists, \<open>recalculateLeadScore\<close> loads all of the
  lead's processed events in ascending timestamp order; no sequence number exists, and the
  order among events with equal timestamps is whatever the store's sort returns. It
  replays them in that order from score 0, each event with an active rule adding its
  rule's points with the clamp to \<open>[0, MAX]\<close> applied at every step (an event whose type
  has no active rule is passed over); replaces the lead's ScoreHistory rows with the
  regenerated rows, one per scored event, whose \<open>previousScore\<close> is the score before the
  event and whose \<open>change\<close> is \<open>score - previousScore\<close>, leaving other leads' rows alone;
  stores the final total in \<open>Lead.currentScore\<close>; and returns the lead's score before, the
  final total and the number of events loaded.
\<close>

theorem recalculate_replays_by_timestamp:
  fixes srt :: "event list \<Rightarrow> event list"
    and mx :: int and now :: date and s :: store and lid :: object_id and ld :: lead
  assumes srt: "sorts_by_timestamp srt"
    and found: "Lead_findById (leads s) lid = Some ld"
  defines "evs \<equiv> Event_find_processed_by srt (events s) lid"
  defines "scores \<equiv> running_scores mx 0 (List.map_filter (rule_points (rules s)) evs)"
  defines "s' \<equiv> snd (recalculateLeadScore_by srt mx now s lid)"
  defines "rows \<equiv> filter (\<lambda>h. sh_leadId h = lid) (history s')"
  shows "sorted (map timestamp evs)
       \<and> mset evs = mset (filter (\<lambda>e. leadId e = lid \<and> processed e) (events s))
       \<and> map sh_score rows = scores
       \<and> map sh_previousScore rows = butlast (0 # scores)
       \<and> (\<forall>h \<in> set rows. sh_change h = sh_score h - sh_previousScore h)
       \<and> map (\<lambda>h. (sh_eventId h, sh_eventType h, sh_timestamp h)) rows =
           map (\<lambda>e. (eventId e, eventType e, timestamp e)) (scored_events (rules s) evs)
       \<and> filter (\<lambda>h. sh_leadId h \<noteq> lid) (history s') = filter (\<lambda>h. sh_leadId h \<noteq> lid) (history s)
       \<and> Lead_findById (leads s') lid = Some (ld\<lparr>currentScore := last (0 # scores), lead_updatedAt := now\<rparr>)
       \<and> events s' = events s
       \<and> fst (recalculateLeadScore_by srt mx now s lid) =
           Inr \<lparr>rc_leadId = lid, rc_previousScore = currentScore ld,
                rc_newScore = last (0 # scores), eventsProcessed = length evs\<rparr>"
proof -
  let ?rp = "replay mx now (rules s) lid evs 0 []"
  have rows: "rows = snd ?rp"
    unfolding rows_def s'_def evs_def
    by (simp add: recalc_by_found [OF found] replay_filter_same)
  have total: "fst ?rp = last (0 # scores)"
    unfolding scores_def by (rule replay_total)
  have c1: "sorted (map timestamp evs)"
    using srt unfolding evs_def Event_find_processed_by_def sorts_by_timestamp_def by blast
  have c2: "mset evs = mset (filter (\<lambda>e. leadId e = lid \<and> processed e) (events s))"
    using srt unfolding evs_def Event_find_processed_by_def sorts_by_timestamp_def by blast
  have c3: "map sh_score rows = scores"
    unfolding rows scores_def by (rule replay_scores)
  have c4: "map sh_previousScore rows = butlast (0 # scores)"
    unfolding c3 [symmetric] rows by (rule replay_previous)
  have c5: "\<forall>h \<in> set rows. sh_change h = sh_score h - sh_previousScore h"
    unfolding rows using replay_change by blast
  have "map ((\<lambda>(a, b, c, d, e). (b, c, d)) \<circ> (\<lambda>h. (sh_leadId h, sh_eventId h, sh_eventType h, sh_timestamp h, sh_createdAt h))) rows
      = map ((\<lambda>(a, b, c, d, e). (b, c, d)) \<circ> (\<lambda>e. (lid, eventId e, eventType e, timestamp e, now))) (scored_events (rules s) evs)"
    unfolding rows map_map [symmetric] by (simp only: replay_rows_shape)
  then have c6: "map (\<lambda>h. (sh_eventId h, sh_eventType h, sh_timestamp h)) rows =
           map (\<lambda>e. (eventId e, eventType e, timestamp e)) (scored_events (rules s) evs)"
    by (simp add: comp_def)
  have c7: "filter (\<lambda>h. sh_leadId h \<noteq> lid) (history s') = filter (\<lambda>h. sh_leadId h \<noteq> lid) (history s)"
    unfolding s'_def evs_def
    by (simp add: recalc_by_found [OF found] replay_filter_other)
  have c8: "Lead_findById (leads s') lid = Some (ld\<lparr>currentScore := last (0 # scores), lead_updatedAt := now\<rparr>)"
    unfolding s'_def total [symmetric] evs_def
    using Lead_findById_id [OF found]
    by (simp add: recalc_by_found [OF found] Lead_findById_save [OF found])
  have c9: "events s' = events s"
    unfolding s'_def by (simp add: recalc_by_found [OF found])
  have c10: "fst (recalculateLeadScore_by srt mx now s lid) =
           Inr \<lparr>rc_leadId = lid, rc_previousScore = currentScore ld,
                rc_newScore = last (0 # scores), eventsProcessed = length evs\<rparr>"
    unfolding total [symmetric] evs_def by (simp add: recalc_by_found [OF found])
  show ?thesis
    using c1 c2 c3 c4 c5 c6 c7 c8 c9 c10 by blast
qed

theorem recalculate_replays_by_timestamp_witness:
  "sorts_by_timestamp sort_ties_reversed
   \<and> Lead_findById (leads tied_store) ''L2'' = Some fresh_lead
   \<and> map eventId (Event_find_processed_by sort_ties_reversed (events tied_store) ''L2'') = [''o'', ''p'']
   \<and> map sh_score (filter (\<lambda>h. sh_leadId h = ''L2'')
        (history (snd (recalculateLeadScore_by sort_ties_reversed 100 9 tied_store ''L2'')))) = [0, 80]
   \<and> fst (recalculateLeadScore_by sort_ties_reversed 100 9 tied_store ''L2'') =
       Inr \<lparr>rc_leadId = ''L2'', rc_previousScore = 0, rc_newScore = 80, eventsProcessed = 2\<rparr>"
proof -
  have found: "Lead_findById (leads tied_store) ''L2'' = Some fresh_lead"
    by (simp add: tied_store_def fresh_lead_def Lead_findById_def)
  have evs: "Event_find_processed_by sort_ties_reversed (events tied_store) ''L2'' =
      [tied_open, tied_purchase]"
    by (simp add: Event_find_processed_by_def sort_ties_reversed_def tied_store_def
        tied_purchase_def tied_open_def)
  have ids: "map eventId [tied_open, tied_purchase] = [''o'', ''p'']"
    by (simp add: tied_purchase_def tied_open_def)
  have pts: "List.map_filter (rule_points (rules tied_store)) [tied_open, tied_purchase] = [- 50, 80]"
    by (simp add: tied_store_def tied_purchase_def tied_open_def offset_rules_def
        map_filter_simps rule_points_def ScoringRule_findOne_def)
  have sc: "running_scores 100 0 [- 50, 80] = [0, 80]"
    by (simp add: clamp_def)
  show ?thesis
    using sort_ties_reversed_sorts found ids
      recalculate_replays_by_timestamp [OF sort_ties_reversed_sorts found, of 100 9]
    unfolding evs pts sc
    by (simp add: fresh_lead_def)
qed

lemmas demo_defs = demo_store_def demo_lead_def demo_purchase_def demo_open_def demo_row_def defaultRules_def

lemmas settled_defs = settled_store_def settled_lead_def settled_open_row_def
  settled_purchase_row_def demo_purchase_def demo_open_def defaultRules_def

section \<open>Scores stay within bounds\<close>

text \<open>The configured ceiling is positive unless the environment sets a negative one.\<close>

lemma MAX_SCORE_positive:
  "(case env of None \<Rightarrow> True | Some n \<Rightarrow> 0 \<le> n) \<Longrightarrow> 0 < MAX_SCORE env"
  by (simp add: MAX_SCORE_def split: option.splits)

lemma Lead_save_all: "list_all P ls \<Longrightarrow> P l \<Longrightarrow> list_all P (Lead_save ls l)"
  by (induction ls) auto

lemma replay_rows_range:
  "0 \<le> mx \<Longrightarrow> h \<in> set (snd (replay mx now rs lid evs t [])) \<Longrightarrow> 0 \<le> sh_score h \<and> sh_score h \<le> mx"
proof (induction evs arbitrary: t)
  case Nil
  then show ?case by simp
next
  case (Cons ev evs)
  show ?case
  proof (cases "ScoringRule_findOne rs (eventType ev)")
    case None
    then show ?thesis using Cons by simp
  next
    case (Some rule)
    show ?thesis
      using Cons bound_score_range [of mx "t + points rule"]
      by (auto simp del: replay.simps simp add: replay_Cons_Some [OF Some])
  qed
qed

lemma replay_total_range:
  "0 \<le> mx \<Longrightarrow> 0 \<le> t \<Longrightarrow> t \<le> mx \<Longrightarrow>
   0 \<le> fst (replay mx now rs lid evs t []) \<and> fst (replay mx now rs lid evs t []) \<le> mx"
proof (induction evs arbitrary: t)
  case Nil
  then show ?case by simp
next
  case (Cons ev evs)
  show ?case
  proof (cases "ScoringRule_findOne rs (eventType ev)")
    case None
    then show ?thesis using Cons by simp
  next
    case (Some rule)
    show ?thesis
      using Cons.prems(1) bound_score_range [of mx "t + points rule"]
         Cons.IH [of "bound_score mx (t + points rule)"]
      by (simp del: replay.simps add: replay_Cons_Some [OF Some])
  qed
qed

lemma recalc_in_range:
  assumes "0 \<le> mx" and "scores_in_range mx s"
  shows "scores_in_range mx (snd (recalculateLeadScore mx now s lid))"
proof (cases "Lead_findById (leads s) lid")
  case None
  then show ?thesis using assms by (simp add: recalc_missing)
next
  case (Some ld)
  let ?rp = "replay mx now (rules s) lid (Event_find_processed (events s) lid) 0 []"
  have rows: "list_all (\<lambda>h. 0 \<le> sh_score h \<and> sh_score h \<le> mx) (snd ?rp)"
    unfolding list_all_iff using replay_rows_range [OF assms(1)] by blast
  have tot: "0 \<le> fst ?rp \<and> fst ?rp \<le> mx"
    using replay_total_range [OF assms(1), of 0] assms(1) by simp
  have old: "list_all (\<lambda>h. 0 \<le> sh_score h \<and> sh_score h \<le> mx) (ScoreHistory_deleteMany (history s) lid)"
    using assms(2) by (simp add: scores_in_range_def ScoreHistory_deleteMany_def list_all_iff)
  have lds: "list_all (\<lambda>l. 0 \<le> currentScore l \<and> currentScore l \<le> mx)
      (Lead_save (leads s) (ld\<lparr>currentScore := fst ?rp, lead_updatedAt := now\<rparr>))"
    using assms(2) tot by (intro Lead_save_all) (simp_all add: scores_in_range_def)
  show ?thesis
    using rows old lds by (simp add: recalc_found [OF Some] scores_in_range_def)
qed

lemma ledger_event_fields:
  assumes "ledger_event now s d ex = Inr (ev, s1)"
  shows "leads s1 = leads s" and "history s1 = history s" and "rules s1 = rules s"
    and "emitted s1 = emitted s"
  using assms by (auto simp: ledger_event_def Let_def split: option.splits if_splits)

lemma in_order_path_eq:
  "in_order_path mx now s d ld rule ev =
     (Inl (ReferenceError ''change''),
      s\<lparr>leads := Lead_save (leads s)
                    (ld\<lparr>currentScore := bound_score mx (currentScore ld + points rule),
                        lead_updatedAt := now\<rparr>)\<rparr>)"
  by (simp add: in_order_path_def change_binding_def Let_def)

lemma out_of_order_path_found:
  assumes "Lead_findById (leads s) (ed_leadId d) = Some ld'"
  shows "out_of_order_path mx now s d ld ev =
     (let s1 = s\<lparr>events := Event_save (events s) (ev\<lparr>processed := True, processedAt := Some now\<rparr>)\<rparr>;
          total = fst (replay mx now (rules s) (ed_leadId d) (Event_find_processed (events s1) (ed_leadId d)) 0 []);
          s2 = snd (recalculateLeadScore mx now s1 (ed_leadId d))
      in (Inr (OutOfOrderR (lead_id ld) (currentScore ld') total (total - currentScore ld') (ed_eventType d)),
          s2\<lparr>emitted := emitted s @
                   [\<lparr>u_leadId = lead_id ld, u_leadName = lead_name ld,
                     u_leadEmail = lead_email ld,
                     u_previousScore = currentScore ld',
                     u_newScore = total,
                     u_change = total - currentScore ld',
                     u_eventType = ed_eventType d, u_timestamp = timestamp ev,
                     u_outOfOrder = Some True\<rparr>]\<rparr>))"
proof -
  let ?s1 = "s\<lparr>events := Event_save (events s) (ev\<lparr>processed := True, processedAt := Some now\<rparr>)\<rparr>"
  have f: "Lead_findById (leads ?s1) (ed_leadId d) = Some ld'"
    using assms by simp
  show ?thesis
    unfolding out_of_order_path_def Let_def recalc_found [OF f]
    by simp
qed

lemma processEvent_in_range:
  assumes "0 \<le> mx" and "scores_in_range mx s"
  shows "scores_in_range mx (snd (processEvent mx now s d))"
proof -
  have le: "scores_in_range mx s1 \<and> leads s1 = leads s"
    if "ledger_event now s d ex = Inr (ev, s1)" for ex ev s1
    using assms(2) ledger_event_fields [OF that] by (simp add: scores_in_range_def)
  have io: "scores_in_range mx (snd (in_order_path mx now s1 d ld rule ev))"
    if s1: "scores_in_range mx s1" for s1 ld rule ev
  proof -
    have "list_all (\<lambda>l. 0 \<le> currentScore l \<and> currentScore l \<le> mx) (leads s1)"
      using s1 by (simp add: scores_in_range_def)
    then have "list_all (\<lambda>l. 0 \<le> currentScore l \<and> currentScore l \<le> mx)
        (Lead_save (leads s1)
           (ld\<lparr>currentScore := bound_score mx (currentScore ld + points rule), lead_updatedAt := now\<rparr>))"
      using bound_score_range [OF assms(1)] by (intro Lead_save_all) simp_all
    then show ?thesis
      using s1 by (simp add: in_order_path_eq scores_in_range_def)
  qed
  have oo: "scores_in_range mx (snd (out_of_order_path mx now s1 d ld ev))"
    if s1: "scores_in_range mx s1" and f: "Lead_findById (leads s1) (ed_leadId d) = Some ld"
    for s1 ld ev
  proof -
    let ?s1 = "s1\<lparr>events := Event_save (events s1) (ev\<lparr>processed := True, processedAt := Some now\<rparr>)\<rparr>"
    have "scores_in_range mx ?s1"
      using s1 by (simp add: scores_in_range_def)
    from recalc_in_range [OF assms(1) this]
    show ?thesis
      by (simp add: out_of_order_path_found [OF f] Let_def scores_in_range_def)
  qed
  let ?ex = "Event_findOne (events s) (ed_eventId d)"
  show ?thesis
  proof (cases "case ?ex of Some e \<Rightarrow> processed e | None \<Rightarrow> False")
    case True
    then show ?thesis
      using assms(2) by (simp add: processEvent_def Let_def)
  next
    case nd: False
    show ?thesis
    proof (cases "Lead_findById (leads s) (ed_leadId d)")
      case None
      then show ?thesis
        using assms(2) nd by (simp add: processEvent_def Let_def)
    next
      case (Some ld)
      note lf = Some
      show ?thesis
      proof (cases "ScoringRule_findOne (rules s) (ed_eventType d)")
        case None
        then show ?thesis
          using assms(2) nd lf by (simp add: processEvent_def Let_def)
      next
        case (Some rule)
        show ?thesis
        proof (cases "ledger_event now s d ?ex")
          case (Inl err)
          then show ?thesis
            using assms(2) nd lf Some by (simp add: processEvent_def Let_def)
        next
          case (Inr p)
          obtain ev s1 where p: "p = (ev, s1)"
            by (cases p)
          have f: "Lead_findById (leads s1) (ed_leadId d) = Some ld"
            using le [OF Inr [unfolded p]] lf by simp
          have "scores_in_range mx s1"
            using le [OF Inr [unfolded p]] by simp
          then show ?thesis
            using nd lf Some io [of s1 ld rule ev] oo [OF _ f, of ev]
            by (simp add: processEvent_def Let_def Inr p)
        qed
      qed
    qed
  qed
qed

text \<open>
  Claim C5. With \<open>0 \<le> MAX\<close>, if every lead's \<open>currentScore\<close> and every ScoreHistory
  row's \<open>score\<close> lie in \<open>[0, MAX]\<close>, they still do after any sequence of \<open>processEvent\<close>
  calls, \<open>recalculateLeadScore\<close> calls and rule-table changes, whatever the events and
  whatever the point values, negative ones included, and whether the calls return or throw.
\<close>

theorem scores_stay_in_range:
  assumes "0 \<le> mx" and "scores_in_range mx s"
  shows "scores_in_range mx (foldl (apply_operation mx) s ops)"
  using assms(2)
proof (induction ops arbitrary: s)
  case Nil
  then show ?case by simp
next
  case (Cons op ops)
  have "scores_in_range mx (apply_operation mx s op)"
  proof (cases op)
    case (ProcessEvent now d)
    then show ?thesis using processEvent_in_range [OF assms(1) Cons.prems] by simp
  next
    case (Recalculate now lid)
    then show ?thesis using recalc_in_range [OF assms(1) Cons.prems] by simp
  next
    case (ConfigureRules rs)
    then show ?thesis using Cons.prems by (simp add: scores_in_range_def)
  qed
  then show ?case using Cons.IH by simp
qed

lemmas fresh_defs = fresh_store_def fresh_lead_def offset_rules_def purchase_at_def open_at_def

theorem scores_stay_in_range_witness:
  "(0::int) \<le> 100 \<and> scores_in_range 100 fresh_store
   \<and> scores_in_range 100
        (foldl (apply_operation 100) fresh_store
           [ProcessEvent 1 (open_at ''a'' 5), ProcessEvent 2 (purchase_at ''b'' 6),
            ProcessEvent 3 (purchase_at ''c'' 7), Recalculate 4 ''L2''])"
proof -
  have h: "scores_in_range 100 fresh_store"
    by (simp add: scores_in_range_def fresh_defs)
  have "scores_in_range 100
        (foldl (apply_operation 100) fresh_store
           [ProcessEvent 1 (open_at ''a'' 5), ProcessEvent 2 (purchase_at ''b'' 6),
            ProcessEvent 3 (purchase_at ''c'' 7), Recalculate 4 ''L2''])"
    by (rule scores_stay_in_range) (simp_all add: h)
  then show ?thesis
    using h by simp
qed

section \<open>The most recent ledger entry\<close>

text \<open>The row that the lookup of lines 52 to 54 returns is one of the rows it was given
  and carries the greatest timestamp among them.\<close>

lemma latest_row_greatest:
  "\<exists>r. latest_row (Some a) hs = Some r \<and> r \<in> set (a # hs) \<and>
       sh_timestamp r = fold max (map sh_timestamp hs) (sh_timestamp a)"
proof (induction hs arbitrary: a)
  case Nil
  show ?case by simp
next
  case (Cons h hs)
  let ?a = "if sh_timestamp a < sh_timestamp h then h else a"
  obtain r where r: "latest_row (Some ?a) hs = Some r" "r \<in> set (?a # hs)"
    "sh_timestamp r = fold max (map sh_timestamp hs) (sh_timestamp ?a)"
    using Cons.IH [of ?a] by blast
  have "sh_timestamp ?a = max (sh_timestamp h) (sh_timestamp a)"
    by simp
  then have "sh_timestamp r = fold max (map sh_timestamp (h # hs)) (sh_timestamp a)"
    using r(3) by simp
  moreover have "r \<in> set (a # h # hs)"
    using r(2) by (auto split: if_splits)
  moreover have "latest_row (Some a) (h # hs) = Some r"
    using r(1) by (simp split: if_splits)
  ultimately show ?case by blast
qed

lemma ScoreHistory_latest_timestamp:
  "map_option sh_timestamp (ScoreHistory_latest hs lid) = latest_timestamp hs lid"
proof (cases "filter (\<lambda>h. sh_leadId h = lid) hs")
  case Nil
  then show ?thesis
    by (simp add: ScoreHistory_latest_def latest_timestamp_def)
next
  case (Cons a rs)
  obtain r where r: "latest_row (Some a) rs = Some r"
    "sh_timestamp r = fold max (map sh_timestamp rs) (sh_timestamp a)"
    using latest_row_greatest [of a rs] by blast
  have "Max (set (map sh_timestamp (a # rs))) = fold max (map sh_timestamp rs) (sh_timestamp a)"
    using Max.set_eq_fold [of "sh_timestamp a" "map sh_timestamp rs"] by simp
  then show ?thesis
    using r by (simp add: ScoreHistory_latest_def latest_timestamp_def Cons)
qed

lemma ScoreHistory_latest_row:
  assumes "ScoreHistory_latest hs lid = Some r"
  shows "r \<in> set hs \<and> sh_leadId r = lid"
proof (cases "filter (\<lambda>h. sh_leadId h = lid) hs")
  case Nil
  then show ?thesis
    using assms by (simp add: ScoreHistory_latest_def)
next
  case (Cons a rs)
  obtain r' where r': "latest_row (Some a) rs = Some r'" "r' \<in> set (a # rs)"
    using latest_row_greatest [of a rs] by blast
  have "r' = r"
    using assms r'(1) by (simp add: ScoreHistory_latest_def Cons)
  then have "r \<in> set (filter (\<lambda>h. sh_leadId h = lid) hs)"
    using r'(2) Cons by simp
  then show ?thesis by simp
qed

text \<open>So the test of lines 56 and 57 holds exactly when the lead has a ScoreHistory entry
  and the event's timestamp is earlier than the greatest timestamp among the lead's
  entries.\<close>

lemma isOutOfOrder_latest:
  "isOutOfOrder s lid ev =
     (case latest_timestamp (history s) lid of None \<Rightarrow> False | Some t \<Rightarrow> timestamp ev < t)"
proof -
  have "isOutOfOrder s lid ev =
      (case map_option sh_timestamp (ScoreHistory_latest (history s) lid) of
         None \<Rightarrow> False
       | Some t \<Rightarrow> timestamp ev < t)"
    by (simp add: isOutOfOrder_def split: option.splits)
  then show ?thesis
    by (simp only: ScoreHistory_latest_timestamp)
qed

section \<open>The stages of processEvent\<close>

lemma processEvent_duplicate:
  "is_duplicate s d \<Longrightarrow> processEvent mx now s d = (Inr DuplicateR, s)"
  by (simp add: processEvent_def is_duplicate_def Let_def)

lemma processEvent_no_lead:
  "\<not> is_duplicate s d \<Longrightarrow> Lead_findById (leads s) (ed_leadId d) = None \<Longrightarrow>
   processEvent mx now s d = (Inl (LeadNotFound (ed_leadId d)), s)"
  by (simp add: processEvent_def is_duplicate_def Let_def)

lemma processEvent_no_rule:
  "\<not> is_duplicate s d \<Longrightarrow> Lead_findById (leads s) (ed_leadId d) = Some ld \<Longrightarrow>
   ScoringRule_findOne (rules s) (ed_eventType d) = None \<Longrightarrow>
   processEvent mx now s d = (Inl (NoActiveRule (ed_eventType d)), s)"
  by (simp add: processEvent_def is_duplicate_def Let_def)

lemma ledger_event_accepted:
  "event_accepted now s d \<Longrightarrow>
   ledger_event now s d (Event_findOne (events s) (ed_eventId d)) =
     Inr (the_event now s d, ledgered now s d)"
  by (simp add: event_accepted_def ledger_event_def the_event_def ledgered_def Let_def
      split: option.splits)

lemma valid_event_accepted:
  "Event_invalid_paths (the_event now s d) = [] \<Longrightarrow> event_accepted now s d"
  by (simp add: event_accepted_def the_event_def split: option.splits)

lemma ledger_event_rejected:
  "\<not> event_accepted now s d \<Longrightarrow>
   ledger_event now s d (Event_findOne (events s) (ed_eventId d)) =
     Inl (ValidationError (Event_invalid_paths (new_event now d)))"
  by (simp add: event_accepted_def ledger_event_def Let_def split: option.splits)

lemma processEvent_rejected:
  "\<not> is_duplicate s d \<Longrightarrow> Lead_findById (leads s) (ed_leadId d) = Some ld \<Longrightarrow>
   ScoringRule_findOne (rules s) (ed_eventType d) = Some rule \<Longrightarrow>
   \<not> event_accepted now s d \<Longrightarrow>
   processEvent mx now s d = (Inl (ValidationError (Event_invalid_paths (new_event now d))), s)"
  by (simp add: processEvent_def is_duplicate_def Let_def ledger_event_rejected)

lemma processEvent_scoring:
  "\<not> is_duplicate s d \<Longrightarrow> Lead_findById (leads s) (ed_leadId d) = Some ld \<Longrightarrow>
   ScoringRule_findOne (rules s) (ed_eventType d) = Some rule \<Longrightarrow>
   event_accepted now s d \<Longrightarrow>
   processEvent mx now s d =
     (if isOutOfOrder (ledgered now s d) (ed_leadId d) (the_event now s d)
      then out_of_order_path mx now (ledgered now s d) d ld (the_event now s d)
      else in_order_path mx now (ledgered now s d) d ld rule (the_event now s d))"
  by (simp add: processEvent_def is_duplicate_def Let_def ledger_event_accepted)

lemma ledgered_fields [simp]:
  "leads (ledgered now s d) = leads s"
  "history (ledgered now s d) = history s"
  "rules (ledgered now s d) = rules s"
  "emitted (ledgered now s d) = emitted s"
  by (simp_all add: ledgered_def split: option.splits)

lemma Event_findOne_id: "Event_findOne evs eid = Some e \<Longrightarrow> eventId e = eid"
  by (induction evs) (auto simp: Event_findOne_def split: if_splits)

lemma Event_findOne_append_new:
  "Event_findOne evs eid = None \<Longrightarrow> eventId e = eid \<Longrightarrow> Event_findOne (evs @ [e]) eid = Some e"
  by (induction evs) (auto simp: Event_findOne_def split: if_splits)

lemma Event_findOne_save:
  "Event_findOne evs eid = Some e0 \<Longrightarrow> eventId e = eid \<Longrightarrow>
   Event_findOne (Event_save evs e) eid = Some e"
  by (induction evs) (auto simp: Event_findOne_def split: if_splits)

lemma the_event_id: "eventId (the_event now s d) = ed_eventId d"
  by (auto simp: the_event_def new_event_def Event_findOne_id split: option.splits)

lemma ledgered_findOne:
  "Event_findOne (events (ledgered now s d)) (ed_eventId d) = Some (the_event now s d)"
  by (auto simp: the_event_def ledgered_def new_event_def Event_findOne_append_new
      split: option.splits)

section \<open>The in-order path\<close>

text \<open>
  Claim C1, evaluated on a lead with score 0 and a first purchase worth 80 points, which is
  not a duplicate, has an active rule and a known lead, and is in order (the lead has no
  ScoreHistory yet). The claim asks for the new score to be persisted, one ScoreHistory row
  to be appended, the event to be marked processed, a notification to be emitted and
  \<open>{previousScore, newScore, change}\<close> to be returned. \<open>processEvent\<close> persists the new
  score 80 and then throws a ReferenceError on the undeclared identifier \<^verbatim>\<open>change\<close>:
  no ScoreHistory row is written, the event stays unprocessed, nothing is emitted and
  nothing is returned.
\<close>

theorem in_order_event_throws:
  "processEvent 100 1 fresh_store (purchase_at ''b'' 6) =
     (Inl (ReferenceError ''change''),
      \<lparr>leads = [fresh_lead\<lparr>currentScore := 80, lead_updatedAt := 1\<rparr>],
        events = [\<lparr>eventId = ''b'', eventType = ''purchase'', leadId = ''L2'', timestamp = 6,
                   metadata = ''{}'', processed = False, processedAt = None, createdAt = 1\<rparr>],
        history = [], rules = offset_rules, emitted = []\<rparr>)"
  by (simp add: processEvent_def fresh_defs Event_findOne_def Lead_findById_def
      ScoringRule_findOne_def ledger_event_def new_event_def Event_invalid_paths_def
      validEventTypes_def isOutOfOrder_def ScoreHistory_latest_def
      in_order_path_eq bound_score_def Let_def)

section \<open>Events without an active rule\<close>




section \<open>Equal timestamps\<close>

text \<open>
  Claim C10. The out-of-order test compares timestamps only, and strictly. When the event
  is not an already processed duplicate, its lead and an active rule exist, its ledger
  record is already stored or passes the schema's validation, and the event's timestamp
  equals the timestamp of the lead's most recent ScoreHistory entry (the greatest among
  the lead's entries), the test is false, \<open>processEvent\<close> takes the in-order path, and the
  local delta is applied: \<open>Lead.currentScore\<close> becomes
  \<open>clamp(currentScore + points, 0, MAX)\<close> and the ledger is not regenerated. (The in-order
  path then fails as it does for every event, see C1.)
\<close>

theorem equal_timestamp_is_in_order:
  assumes nd: "\<not> is_duplicate s d"
    and lf: "Lead_findById (leads s) (ed_leadId d) = Some ld"
    and rf: "ScoringRule_findOne (rules s) (ed_eventType d) = Some rule"
    and acc: "event_accepted now s d"
    and eq: "latest_timestamp (history s) (ed_leadId d) = Some (timestamp (the_event now s d))"
  shows "\<not> isOutOfOrder (ledgered now s d) (ed_leadId d) (the_event now s d)
       \<and> processEvent mx now s d =
           in_order_path mx now (ledgered now s d) d ld rule (the_event now s d)
       \<and> Lead_findById (leads (snd (processEvent mx now s d))) (ed_leadId d) =
           Some (ld\<lparr>currentScore := clamp (currentScore ld + points rule) 0 mx,
                    lead_updatedAt := now\<rparr>)
       \<and> history (snd (processEvent mx now s d)) = history s
       \<and> fst (processEvent mx now s d) = Inl (ReferenceError ''change'')"
proof -
  have io: "\<not> isOutOfOrder (ledgered now s d) (ed_leadId d) (the_event now s d)"
    using eq by (simp add: isOutOfOrder_latest)
  have pe: "processEvent mx now s d =
           in_order_path mx now (ledgered now s d) d ld rule (the_event now s d)"
    using processEvent_scoring [OF nd lf rf acc] io by simp
  have id: "lead_id ld = ed_leadId d"
    using lf by (rule Lead_findById_id)
  show ?thesis
    using io pe id
    by (simp add: in_order_path_eq Lead_findById_save [OF lf] bound_score_clamp)
qed

theorem equal_timestamp_is_in_order_witness:
  "\<not> is_duplicate settled_store (demo_open_at ''e3'' 10)
   \<and> Lead_findById (leads settled_store) ''L1'' = Some settled_lead
   \<and> ScoringRule_findOne (rules settled_store) ''email_open'' = Some (hd defaultRules)
   \<and> event_accepted 30 settled_store (demo_open_at ''e3'' 10)
   \<and> latest_timestamp (history settled_store) ''L1'' =
       Some (timestamp (the_event 30 settled_store (demo_open_at ''e3'' 10)))
   \<and> \<not> isOutOfOrder (ledgered 30 settled_store (demo_open_at ''e3'' 10)) ''L1''
          (the_event 30 settled_store (demo_open_at ''e3'' 10))
   \<and> Lead_findById (leads (snd (processEvent 1000 30 settled_store (demo_open_at ''e3'' 10)))) ''L1'' =
       Some (settled_lead\<lparr>currentScore := 120, lead_updatedAt := 30\<rparr>)
   \<and> history (snd (processEvent 1000 30 settled_store (demo_open_at ''e3'' 10))) =
       [settled_open_row, settled_purchase_row]"
proof -
  let ?d = "demo_open_at ''e3'' 10"
  have a: "\<not> is_duplicate settled_store ?d"
    by (simp add: is_duplicate_def settled_defs demo_open_at_def Event_findOne_def)
  have b: "Lead_findById (leads settled_store) (ed_leadId ?d) = Some settled_lead"
    by (simp add: settled_defs demo_open_at_def Lead_findById_def)
  have c: "ScoringRule_findOne (rules settled_store) (ed_eventType ?d) = Some (hd defaultRules)"
    by (simp add: settled_defs demo_open_at_def ScoringRule_findOne_def)
  have v: "event_accepted 30 settled_store ?d"
    by (simp add: event_accepted_def settled_defs demo_open_at_def Event_findOne_def
        Event_invalid_paths_def new_event_def validEventTypes_def)
  have ts: "timestamp (the_event 30 settled_store ?d) = 10"
    by (simp add: the_event_def new_event_def settled_defs demo_open_at_def Event_findOne_def)
  have lt: "latest_timestamp (history settled_store) ''L1'' = Some 10"
    by (simp add: latest_timestamp_def settled_defs)
  have p: "points (hd defaultRules) = 10" "currentScore settled_lead = 110"
    "ed_leadId ?d = ''L1''" "ed_eventType ?d = ''email_open''"
    "history settled_store = [settled_open_row, settled_purchase_row]"
    by (simp_all add: settled_defs demo_open_at_def)
  have e: "latest_timestamp (history settled_store) (ed_leadId ?d) =
      Some (timestamp (the_event 30 settled_store ?d))"
    unfolding ts p(3) by (rule lt)
  note t = equal_timestamp_is_in_order [OF a b c v e, of 1000]
  have f: "\<not> isOutOfOrder (ledgered 30 settled_store ?d) ''L1'' (the_event 30 settled_store ?d)"
    using t p(3) by simp
  have "Lead_findById (leads (snd (processEvent 1000 30 settled_store ?d))) (ed_leadId ?d) =
      Some (settled_lead\<lparr>currentScore := clamp (currentScore settled_lead + points (hd defaultRules)) 0 1000,
                        lead_updatedAt := 30\<rparr>)"
    using t by blast
  then have g: "Lead_findById (leads (snd (processEvent 1000 30 settled_store ?d))) ''L1'' =
      Some (settled_lead\<lparr>currentScore := 120, lead_updatedAt := 30\<rparr>)"
    by (simp add: p clamp_def)
  have "history (snd (processEvent 1000 30 settled_store ?d)) = history settled_store"
    using t by blast
  then have h: "history (snd (processEvent 1000 30 settled_store ?d)) =
      [settled_open_row, settled_purchase_row]"
    by (simp add: p)
  show ?thesis
    using a b c v e f g h by (simp add: p)
qed

section \<open>The out-of-order path\<close>

lemma marked_processed_fields [simp]:
  "leads (marked_processed now s d) = leads s"
  "history (marked_processed now s d) = history s"
  "rules (marked_processed now s d) = rules s"
  "emitted (marked_processed now s d) = emitted s"
  by (simp_all add: marked_processed_def)

lemma marked_processed_findOne:
  "Event_findOne (events (marked_processed now s d)) (ed_eventId d) =
     Some ((the_event now s d)\<lparr>processed := True, processedAt := Some now\<rparr>)"
  unfolding marked_processed_def
  by (simp add: Event_findOne_save [OF ledgered_findOne] the_event_id)

lemma recalc_events [simp]: "events (snd (recalculateLeadScore mx now s lid)) = events s"
  by (cases "Lead_findById (leads s) lid") (simp_all add: recalc_found recalc_missing)

lemma recalc_rules [simp]: "rules (snd (recalculateLeadScore mx now s lid)) = rules s"
  by (cases "Lead_findById (leads s) lid") (simp_all add: recalc_found recalc_missing)

lemma recalc_emitted [simp]: "emitted (snd (recalculateLeadScore mx now s lid)) = emitted s"
  by (cases "Lead_findById (leads s) lid") (simp_all add: recalc_found recalc_missing)

lemma recalc_lead:
  assumes "Lead_findById (leads s) lid = Some ld"
  shows "Lead_findById (leads (snd (recalculateLeadScore mx now s lid))) lid =
     Some (ld\<lparr>currentScore := last (0 # running_scores mx 0
              (List.map_filter (rule_points (rules s)) (Event_find_processed (events s) lid))),
            lead_updatedAt := now\<rparr>)"
proof -
  let ?ld = "ld\<lparr>currentScore := last (0 # running_scores mx 0
              (List.map_filter (rule_points (rules s)) (Event_find_processed (events s) lid))),
            lead_updatedAt := now\<rparr>"
  have id: "lead_id ?ld = lid"
    using Lead_findById_id [OF assms] by simp
  have "leads (snd (recalculateLeadScore mx now s lid)) = Lead_save (leads s) ?ld"
    by (simp del: last.simps add: recalc_found [OF assms] replay_total)
  then show ?thesis
    using Lead_findById_save [OF assms id, of lid] by (simp del: last.simps)
qed

lemma out_of_order_path_eq:
  assumes "Lead_findById (leads s) (ed_leadId d) = Some ld"
  shows "out_of_order_path mx now (ledgered now s d) d ld (the_event now s d) =
     (Inr (OutOfOrderR (ed_leadId d) (currentScore ld)
             (fst (replay mx now (rules s) (ed_leadId d)
                     (Event_find_processed (events (marked_processed now s d)) (ed_leadId d)) 0 []))
             (fst (replay mx now (rules s) (ed_leadId d)
                     (Event_find_processed (events (marked_processed now s d)) (ed_leadId d)) 0 [])
              - currentScore ld)
             (ed_eventType d)),
      (snd (recalculateLeadScore mx now (marked_processed now s d) (ed_leadId d)))
        \<lparr>emitted := emitted s @
           [\<lparr>u_leadId = ed_leadId d, u_leadName = lead_name ld, u_leadEmail = lead_email ld,
             u_previousScore = currentScore ld,
             u_newScore = fst (replay mx now (rules s) (ed_leadId d)
                     (Event_find_processed (events (marked_processed now s d)) (ed_leadId d)) 0 []),
             u_change = fst (replay mx now (rules s) (ed_leadId d)
                     (Event_find_processed (events (marked_processed now s d)) (ed_leadId d)) 0 [])
                        - currentScore ld,
             u_eventType = ed_eventType d, u_timestamp = timestamp (the_event now s d),
             u_outOfOrder = Some True\<rparr>]\<rparr>)"
proof -
  have f: "Lead_findById (leads (ledgered now s d)) (ed_leadId d) = Some ld"
    using assms by simp
  have id: "lead_id ld = ed_leadId d"
    using assms by (rule Lead_findById_id)
  show ?thesis
    unfolding out_of_order_path_found [OF f] marked_processed_def [symmetric] Let_def
    by (simp add: id)
qed

text \<open>
  Claim C3. When the event is not an already processed duplicate, its lead and an active
  rule exist, its ledger record passes the schema's validation, and the event's timestamp is earlier than the timestamp of the lead's most recent
  ScoreHistory entry (the greatest among the lead's entries), \<open>processEvent\<close> applies no
  local delta: it marks the event processed in the ledger, runs \<open>recalculateLeadScore\<close>
  for the lead on that store, emits one notification flagged \<open>outOfOrder\<close>, and returns
  the out-of-order result whose \<open>previousScore\<close> is the lead's score before the
  recalculation and whose \<open>newScore\<close> is the total of the replay; that total is the lead's
  score afterwards.
\<close>

theorem out_of_order_recalculates:
  fixes mx :: int and now :: date and s :: store and d :: eventData
    and ld :: lead and rule :: scoringRule and latest :: date
  defines "lid \<equiv> ed_leadId d"
  defines "ev \<equiv> the_event now s d"
  defines "marked \<equiv> marked_processed now s d"
  defines "recalc \<equiv> recalculateLeadScore mx now marked lid"
  defines "final \<equiv> last (0 # running_scores mx 0
                       (List.map_filter (rule_points (rules s)) (Event_find_processed (events marked) lid)))"
  assumes nd: "\<not> is_duplicate s d"
    and lf0: "Lead_findById (leads s) lid = Some ld"
    and rf: "ScoringRule_findOne (rules s) (ed_eventType d) = Some rule"
    and valid: "Event_invalid_paths ev = []"
    and lt: "latest_timestamp (history s) lid = Some latest"
    and early: "timestamp ev < latest"
  shows "Event_findOne (events marked) (ed_eventId d) =
           Some (ev\<lparr>processed := True, processedAt := Some now\<rparr>)
       \<and> fst recalc = Inr \<lparr>rc_leadId = lid, rc_previousScore = currentScore ld, rc_newScore = final,
                           eventsProcessed = length (Event_find_processed (events marked) lid)\<rparr>
       \<and> processEvent mx now s d =
           (Inr (OutOfOrderR lid (currentScore ld) final (final - currentScore ld) (ed_eventType d)),
            (snd recalc)\<lparr>emitted := emitted s @
               [\<lparr>u_leadId = lid, u_leadName = lead_name ld, u_leadEmail = lead_email ld,
                 u_previousScore = currentScore ld, u_newScore = final,
                 u_change = final - currentScore ld, u_eventType = ed_eventType d,
                 u_timestamp = timestamp ev, u_outOfOrder = Some True\<rparr>]\<rparr>)
       \<and> Event_findOne (events (snd (processEvent mx now s d))) (ed_eventId d) =
           Some (ev\<lparr>processed := True, processedAt := Some now\<rparr>)
       \<and> Lead_findById (leads (snd (processEvent mx now s d))) lid =
           Some (ld\<lparr>currentScore := final, lead_updatedAt := now\<rparr>)"
proof -
  have lf: "Lead_findById (leads s) (ed_leadId d) = Some ld"
    using lf0 unfolding lid_def .
  have lfm: "Lead_findById (leads marked) lid = Some ld"
    using lf unfolding marked_def lid_def by simp
  have acc: "event_accepted now s d"
    using valid unfolding ev_def by (rule valid_event_accepted)
  have oo: "isOutOfOrder (ledgered now s d) (ed_leadId d) (the_event now s d)"
    using lt early unfolding lid_def ev_def by (simp add: isOutOfOrder_latest)
  have tot: "fst (replay mx now (rules s) (ed_leadId d)
                     (Event_find_processed (events (marked_processed now s d)) (ed_leadId d)) 0 []) = final"
    unfolding final_def marked_def lid_def by (rule replay_total)
  have c1: "Event_findOne (events marked) (ed_eventId d) =
           Some (ev\<lparr>processed := True, processedAt := Some now\<rparr>)"
    unfolding marked_def ev_def by (rule marked_processed_findOne)
  have c2: "fst recalc = Inr \<lparr>rc_leadId = lid, rc_previousScore = currentScore ld, rc_newScore = final,
                           eventsProcessed = length (Event_find_processed (events marked) lid)\<rparr>"
    unfolding recalc_def final_def using lfm
    by (simp add: recalc_found replay_total marked_def)
  have pe: "processEvent mx now s d =
      out_of_order_path mx now (ledgered now s d) d ld (the_event now s d)"
    using processEvent_scoring [OF nd lf rf acc, of mx] oo by simp
  have c3: "processEvent mx now s d =
           (Inr (OutOfOrderR lid (currentScore ld) final (final - currentScore ld) (ed_eventType d)),
            (snd recalc)\<lparr>emitted := emitted s @
               [\<lparr>u_leadId = lid, u_leadName = lead_name ld, u_leadEmail = lead_email ld,
                 u_previousScore = currentScore ld, u_newScore = final,
                 u_change = final - currentScore ld, u_eventType = ed_eventType d,
                 u_timestamp = timestamp ev, u_outOfOrder = Some True\<rparr>]\<rparr>)"
    unfolding pe out_of_order_path_eq [OF lf] tot
    by (simp add: recalc_def marked_def lid_def ev_def)
  have c4: "Event_findOne (events (snd (processEvent mx now s d))) (ed_eventId d) =
           Some (ev\<lparr>processed := True, processedAt := Some now\<rparr>)"
    unfolding c3 using c1 by (simp add: recalc_def)
  have c5: "Lead_findById (leads (snd (processEvent mx now s d))) lid =
           Some (ld\<lparr>currentScore := final, lead_updatedAt := now\<rparr>)"
    unfolding c3 recalc_def final_def using recalc_lead [OF lfm, of mx now]
    by (simp add: marked_def)
  show ?thesis
    using c1 c2 c3 c4 c5 by blast
qed

theorem out_of_order_recalculates_witness:
  "\<not> is_duplicate settled_store (demo_open_at ''e3'' 7)
   \<and> Lead_findById (leads settled_store) ''L1'' = Some settled_lead
   \<and> ScoringRule_findOne (rules settled_store) ''email_open'' = Some (hd defaultRules)
   \<and> Event_invalid_paths (the_event 30 settled_store (demo_open_at ''e3'' 7)) = []
   \<and> latest_timestamp (history settled_store) ''L1'' = Some 10
   \<and> timestamp (the_event 30 settled_store (demo_open_at ''e3'' 7)) < 10
   \<and> fst (processEvent 1000 30 settled_store (demo_open_at ''e3'' 7)) =
       Inr (OutOfOrderR ''L1'' 110 120 10 ''email_open'')
   \<and> map_option processed
        (Event_findOne (events (snd (processEvent 1000 30 settled_store (demo_open_at ''e3'' 7)))) ''e3'') =
       Some True
   \<and> map_option currentScore
        (Lead_findById (leads (snd (processEvent 1000 30 settled_store (demo_open_at ''e3'' 7)))) ''L1'') =
       Some 120"
proof -
  let ?d = "demo_open_at ''e3'' 7"
  have p: "ed_leadId ?d = ''L1''" "ed_eventType ?d = ''email_open''" "ed_eventId ?d = ''e3''"
    "currentScore settled_lead = 110"
    by (simp_all add: settled_defs demo_open_at_def)
  have a: "\<not> is_duplicate settled_store ?d"
    by (simp add: is_duplicate_def settled_defs demo_open_at_def Event_findOne_def)
  have b: "Lead_findById (leads settled_store) (ed_leadId ?d) = Some settled_lead"
    by (simp add: settled_defs demo_open_at_def Lead_findById_def)
  have c: "ScoringRule_findOne (rules settled_store) (ed_eventType ?d) = Some (hd defaultRules)"
    by (simp add: settled_defs demo_open_at_def ScoringRule_findOne_def)
  have v: "Event_invalid_paths (the_event 30 settled_store ?d) = []"
    by (simp add: the_event_def settled_defs demo_open_at_def Event_findOne_def
        Event_invalid_paths_def new_event_def validEventTypes_def)
  have lt: "latest_timestamp (history settled_store) (ed_leadId ?d) = Some 10"
    by (simp add: latest_timestamp_def settled_defs demo_open_at_def)
  have ev: "the_event 30 settled_store ?d =
      \<lparr>eventId = ''e3'', eventType = ''email_open'', leadId = ''L1'', timestamp = 7,
        metadata = ''{}'', processed = False, processedAt = None, createdAt = 30\<rparr>"
    by (simp add: the_event_def new_event_def settled_defs demo_open_at_def Event_findOne_def)
  have e: "timestamp (the_event 30 settled_store ?d) < 10"
    unfolding ev by simp
  have evs: "Event_find_processed (events (marked_processed 30 settled_store ?d)) ''L1'' =
      [demo_open, (the_event 30 settled_store ?d)\<lparr>processed := True, processedAt := Some 30\<rparr>, demo_purchase]"
    unfolding ev
    by (simp add: marked_processed_def ledgered_def the_event_def new_event_def settled_defs
        demo_open_at_def Event_findOne_def Event_find_processed_eq)
  have pts: "List.map_filter (rule_points (rules settled_store))
      [demo_open, (the_event 30 settled_store ?d)\<lparr>processed := True, processedAt := Some 30\<rparr>, demo_purchase]
      = [10, 10, 100]"
    unfolding ev
    by (simp add: settled_defs map_filter_simps rule_points_def ScoringRule_findOne_def)
  have fin: "last (0 # running_scores 1000 0 [10, 10, 100]) = 120"
    by (simp add: clamp_def)
  note t = out_of_order_recalculates [OF a b c v lt e, of 1000, unfolded p evs pts fin]
  have "processEvent 1000 30 settled_store ?d =
     (Inr (OutOfOrderR ''L1'' 110 120 10 ''email_open''),
      snd (recalculateLeadScore 1000 30 (marked_processed 30 settled_store ?d) ''L1'')
      \<lparr>emitted := emitted settled_store @
         [\<lparr>u_leadId = ''L1'', u_leadName = lead_name settled_lead,
           u_leadEmail = lead_email settled_lead, u_previousScore = 110,
           u_newScore = 120, u_change = 10, u_eventType = ''email_open'',
           u_timestamp = timestamp (the_event 30 settled_store ?d),
           u_outOfOrder = Some True\<rparr>]\<rparr>)"
    using t by simp
  then have r: "fst (processEvent 1000 30 settled_store ?d) = Inr (OutOfOrderR ''L1'' 110 120 10 ''email_open'')"
    by simp
  have "Event_findOne (events (snd (processEvent 1000 30 settled_store ?d))) ''e3'' =
      Some ((the_event 30 settled_store ?d)\<lparr>processed := True, processedAt := Some 30\<rparr>)"
    using t by blast
  then have m: "map_option processed (Event_findOne (events (snd (processEvent 1000 30 settled_store ?d))) ''e3'') = Some True"
    by simp
  have "Lead_findById (leads (snd (processEvent 1000 30 settled_store ?d))) ''L1'' =
      Some (settled_lead\<lparr>currentScore := 120, lead_updatedAt := 30\<rparr>)"
    using t by blast
  then have l: "map_option currentScore (Lead_findById (leads (snd (processEvent 1000 30 settled_store ?d))) ''L1'') = Some 120"
    by simp
  show ?thesis
    using a b c v lt e r m l by (simp add: p)
qed

section \<open>Idempotency\<close>

lemma Event_save_ids: "map eventId (Event_save xs e) = map eventId xs"
  by (induction xs) auto

lemma Event_findOne_None: "Event_findOne evs eid = None \<Longrightarrow> eid \<notin> set (map eventId evs)"
  by (induction evs) (auto simp: Event_findOne_def split: if_splits)

lemma Event_findOne_mem: "Event_findOne evs eid = Some e \<Longrightarrow> e \<in> set evs"
  by (induction evs) (auto simp: Event_findOne_def split: if_splits)

lemma distinct_key_filter:
  "distinct (map f xs) \<Longrightarrow> x \<in> set xs \<Longrightarrow> filter (\<lambda>y. f y = f x) xs = [x]"
proof (induction xs)
  case Nil
  then show ?case by simp
next
  case (Cons a xs)
  show ?case
  proof (cases "a = x")
    case True
    have "f x \<notin> f ` set xs"
      using Cons.prems(1) True by simp
    then have "\<forall>y\<in>set xs. f y \<noteq> f x"
      by (metis imageI)
    then have "filter (\<lambda>y. f y = f x) xs = []"
      by (simp add: filter_empty_conv)
    then show ?thesis using True by simp
  next
    case False
    then have "x \<in> set xs" using Cons.prems(2) by simp
    moreover have "f a \<noteq> f x"
      using Cons.prems(1) \<open>x \<in> set xs\<close> by auto
    ultimately show ?thesis using Cons by simp
  qed
qed

lemma ledgered_distinct:
  "distinct (map eventId (events s)) \<Longrightarrow> distinct (map eventId (events (ledgered now s d)))"
  by (auto simp: ledgered_def new_event_def dest: Event_findOne_None split: option.splits)

lemma marked_distinct:
  "distinct (map eventId (events s)) \<Longrightarrow> distinct (map eventId (events (marked_processed now s d)))"
  by (simp add: marked_processed_def Event_save_ids ledgered_distinct)

lemma the_event_payload:
  assumes "case Event_findOne (events s) (ed_eventId d) of
         None \<Rightarrow> True
       | Some e \<Rightarrow> leadId e = ed_leadId d \<and> eventType e = ed_eventType d"
  shows "leadId (the_event now s d) = ed_leadId d \<and> eventType (the_event now s d) = ed_eventType d"
  using assms by (auto simp: the_event_def new_event_def split: option.splits)

lemma processEvent_success_cases:
  assumes "processEvent mx now s d = (Inr r, s1)" and "r \<noteq> DuplicateR"
  shows "\<not> is_duplicate s d
       \<and> (\<exists>ld rule. Lead_findById (leads s) (ed_leadId d) = Some ld
            \<and> ScoringRule_findOne (rules s) (ed_eventType d) = Some rule
            \<and> isOutOfOrder (ledgered now s d) (ed_leadId d) (the_event now s d)
            \<and> (Inr r, s1) = out_of_order_path mx now (ledgered now s d) d ld (the_event now s d))"
proof -
  have nd: "\<not> is_duplicate s d"
    using assms processEvent_duplicate [where s = s and d = d and mx = mx and now = now] by auto
  obtain ld where lf: "Lead_findById (leads s) (ed_leadId d) = Some ld"
    using assms(1) processEvent_no_lead [OF nd, where mx = mx and now = now]
    by (cases "Lead_findById (leads s) (ed_leadId d)") auto
  obtain rule where rf: "ScoringRule_findOne (rules s) (ed_eventType d) = Some rule"
    using assms(1) processEvent_no_rule [OF nd lf, where mx = mx and now = now]
    by (cases "ScoringRule_findOne (rules s) (ed_eventType d)") auto
  have acc: "event_accepted now s d"
    using assms(1) processEvent_rejected [OF nd lf rf, where mx = mx and now = now]
    by (cases "event_accepted now s d") auto
  have oo: "isOutOfOrder (ledgered now s d) (ed_leadId d) (the_event now s d)"
    using assms(1) processEvent_scoring [OF nd lf rf acc, where mx = mx]
    by (auto simp: in_order_path_eq split: if_splits)
  have "(Inr r, s1) = out_of_order_path mx now (ledgered now s d) d ld (the_event now s d)"
    using assms(1) processEvent_scoring [OF nd lf rf acc, where mx = mx] oo by simp
  then show ?thesis using nd lf rf oo by blast
qed

lemma rows_for_event:
  "length (filter (\<lambda>h. sh_eventId h = eid) (snd (replay mx now rs lid evs t []))) =
   length (filter (\<lambda>e. eventId e = eid) (scored_events rs evs))"
proof -
  have "map sh_eventId (snd (replay mx now rs lid evs t [])) = map eventId (scored_events rs evs)"
    using arg_cong [OF replay_rows_shape [of mx now rs lid evs t], of "map (\<lambda>(a, b, c). b)"]
    by (simp add: comp_def)
  then have "length (filter (\<lambda>x. x = eid) (map sh_eventId (snd (replay mx now rs lid evs t [])))) =
      length (filter (\<lambda>x. x = eid) (map eventId (scored_events rs evs)))"
    by simp
  then show ?thesis
    by (simp add: filter_map comp_def)
qed

text \<open>
  Claim C2. After a first processing of an event that succeeded (it returned a result
  other than \<open>duplicate\<close>), processing the same eventId again, at any time and with any
  payload, returns \<open>{duplicate: true}\<close> and leaves the whole store, notifications included,
  exactly as it was: it is an observation, and adds no score change and no ScoreHistory
  row. On a ledger whose keys are in order, the ScoreHistory then holds exactly one row for
  the eventId.
\<close>

theorem duplicate_is_pure_observation:
  assumes first: "processEvent mx now s d = (Inr r, s1)"
    and success: "r \<noteq> DuplicateR"
    and same: "ed_eventId d' = ed_eventId d"
  shows "processEvent mx now' s1 d' = (Inr DuplicateR, s1)
       \<and> (well_keyed s d \<longrightarrow>
            length (filter (\<lambda>h. sh_eventId h = ed_eventId d) (history s1)) = 1)"
proof -
  let ?lid = "ed_leadId d" and ?eid = "ed_eventId d"
  let ?ev = "(the_event now s d)\<lparr>processed := True, processedAt := Some now\<rparr>"
  let ?m = "marked_processed now s d"
  let ?evs = "Event_find_processed (events ?m) ?lid"
  from processEvent_success_cases [OF first success]
  obtain ld rule where nd: "\<not> is_duplicate s d"
    and lf: "Lead_findById (leads s) ?lid = Some ld"
    and rf: "ScoringRule_findOne (rules s) (ed_eventType d) = Some rule"
    and path: "(Inr r, s1) = out_of_order_path mx now (ledgered now s d) d ld (the_event now s d)"
    by blast
  have lfm: "Lead_findById (leads ?m) ?lid = Some ld"
    using lf by simp
  have s1: "s1 = (snd (recalculateLeadScore mx now ?m ?lid))\<lparr>emitted := emitted s1\<rparr>"
    using path unfolding out_of_order_path_eq [OF lf] by simp
  have ev1: "events s1 = events ?m"
    by (subst s1) simp
  have "Event_findOne (events s1) (ed_eventId d') = Some ?ev"
    unfolding ev1 same by (rule marked_processed_findOne)
  then have "is_duplicate s1 d'"
    by (simp add: is_duplicate_def)
  then have part1: "processEvent mx now' s1 d' = (Inr DuplicateR, s1)"
    by (rule processEvent_duplicate)
  have part2: "length (filter (\<lambda>h. sh_eventId h = ?eid) (history s1)) = 1" if wk: "well_keyed s d"
  proof -
    have h1: "history s1 = ScoreHistory_deleteMany (history s) ?lid @
                 snd (replay mx now (rules s) ?lid ?evs 0 [])"
      by (subst s1) (simp add: recalc_found [OF lfm])
    have old: "filter (\<lambda>h. sh_eventId h = ?eid) (ScoreHistory_deleteMany (history s) ?lid) = []"
      using wk by (auto simp: well_keyed_def ScoreHistory_deleteMany_def list_all_iff filter_empty_conv)
    have dm: "distinct (map eventId (events ?m))"
      using wk by (simp add: well_keyed_def marked_distinct)
    have mem: "?ev \<in> set (events ?m)"
      using marked_processed_findOne [where s = s and d = d and now = now] by (rule Event_findOne_mem)
    have "filter (\<lambda>y. eventId y = eventId ?ev) (events ?m) = [?ev]"
      using dm mem by (rule distinct_key_filter)
    then have one: "filter (\<lambda>e. eventId e = ?eid) (events ?m) = [?ev]"
      by (simp add: the_event_id)
    have pay: "leadId ?ev = ?lid" "eventType ?ev = ed_eventType d" "processed ?ev"
      using the_event_payload [where s = s and d = d and now = now] wk by (simp_all add: well_keyed_def)
    have "filter (\<lambda>e. eventId e = ?eid) (scored_events (rules s) ?evs) =
          filter (\<lambda>e. ScoringRule_findOne (rules s) (eventType e) \<noteq> None)
            (sort_key timestamp (filter (\<lambda>e. leadId e = ?lid \<and> processed e)
               (filter (\<lambda>e. eventId e = ?eid) (events ?m))))"
      unfolding scored_events_def Event_find_processed_eq
      by (simp add: filter_sort)
         (intro arg_cong [where f = "sort_key timestamp"] filter_cong, auto)
    also have "\<dots> = [?ev]"
      unfolding one using pay rf by simp
    finally have "length (filter (\<lambda>e. eventId e = ?eid) (scored_events (rules s) ?evs)) = 1"
      by simp
    then show ?thesis
      unfolding h1 by (simp add: old rows_for_event)
  qed
  show ?thesis
    using part1 part2 by blast
qed

lemmas engine_defs = processEvent_def Event_findOne_def Lead_findById_def ScoringRule_findOne_def
  ledger_event_def new_event_def Event_invalid_paths_def validEventTypes_def
  isOutOfOrder_def ScoreHistory_latest_def in_order_path_eq
  out_of_order_path_def recalculateLeadScore_eq Event_find_processed_eq
  ScoreHistory_deleteMany_def ScoreHistory_insertMany_def bound_score_def Let_def

theorem duplicate_is_pure_observation_witness:
  "fst (processEvent 1000 30 demo_store (demo_open_at ''e3'' 9)) =
     Inr (OutOfOrderR ''L1'' 100 120 20 ''email_open'')
   \<and> OutOfOrderR ''L1'' 100 120 20 ''email_open'' \<noteq> DuplicateR
   \<and> well_keyed demo_store (demo_open_at ''e3'' 9)
   \<and> processEvent 1000 31 (snd (processEvent 1000 30 demo_store (demo_open_at ''e3'' 9)))
        (demo_open_at ''e3'' 9) =
       (Inr DuplicateR, snd (processEvent 1000 30 demo_store (demo_open_at ''e3'' 9)))
   \<and> length (filter (\<lambda>h. sh_eventId h = ''e3'')
               (history (snd (processEvent 1000 30 demo_store (demo_open_at ''e3'' 9))))) = 1"
proof -
  let ?d = "demo_open_at ''e3'' 9"
  let ?r = "OutOfOrderR ''L1'' 100 120 20 ''email_open''"
  let ?s1 = "snd (processEvent 1000 30 demo_store ?d)"
  have r: "fst (processEvent 1000 30 demo_store ?d) = Inr ?r"
    by (simp add: engine_defs demo_defs demo_open_at_def)
  then have first: "processEvent 1000 30 demo_store ?d = (Inr ?r, ?s1)"
    by (simp add: prod_eq_iff)
  have ne: "?r \<noteq> DuplicateR"
    by simp
  have wk: "well_keyed demo_store ?d"
    by (simp add: well_keyed_def demo_defs demo_open_at_def Event_findOne_def)
  note t = duplicate_is_pure_observation [OF first ne refl, of 31]
  have dup: "processEvent 1000 31 ?s1 ?d = (Inr DuplicateR, ?s1)"
    using t by blast
  have "length (filter (\<lambda>h. sh_eventId h = ed_eventId ?d) (history ?s1)) = 1"
    using t wk by blast
  then have one: "length (filter (\<lambda>h. sh_eventId h = ''e3'') (history ?s1)) = 1"
    by (simp add: demo_open_at_def)
  show ?thesis
    using r ne wk dup one by blast
qed

section \<open>Recalculation is not atomic\<close>

lemma recalc_writes_found:
  assumes "Lead_findById (leads s) lid = Some ld"
  shows "recalc_writes mx now s lid =
     [DeleteHistory lid] @
     (if snd (replay mx now (rules s) lid (Event_find_processed (events s) lid) 0 []) \<noteq> []
      then [InsertHistory (snd (replay mx now (rules s) lid (Event_find_processed (events s) lid) 0 []))]
      else []) @
     [SaveLead (ld\<lparr>currentScore := fst (replay mx now (rules s) lid (Event_find_processed (events s) lid) 0 []),
                  lead_updatedAt := now\<rparr>)]"
  using assms by (simp add: recalc_writes_def Let_def split: prod.splits)

lemma recalc_writes_complete:
  "foldl apply_write s (recalc_writes mx now s lid) = snd (recalculateLeadScore mx now s lid)"
proof (cases "Lead_findById (leads s) lid")
  case None
  then show ?thesis by (simp add: recalc_writes_def recalc_missing)
next
  case (Some ld)
  show ?thesis
    by (simp add: recalc_writes_found [OF Some] recalc_found [OF Some] ScoreHistory_insertMany_def)
qed

lemma recalc_writes_length: "length (recalc_writes mx now s lid) \<le> 3"
  by (cases "Lead_findById (leads s) lid") (simp_all add: recalc_writes_def Let_def split: prod.splits)

text \<open>
  Claim C7 as stated fails. The lead has score 100 and one ScoreHistory row; the replay
  gives two rows and score 110. Interrupted after its first write, the recalculation leaves
  the old score 100 with an empty ledger; interrupted after its second, the old score 100
  with the new ledger. Neither is the old state or the new one.
\<close>

theorem interrupted_recalculation_mixes:
  "history demo_store = [demo_row] \<and> map currentScore (leads demo_store) = [100]
   \<and> history (recalc_interrupted 1 1000 30 demo_store ''L1'') = []
   \<and> map currentScore (leads (recalc_interrupted 1 1000 30 demo_store ''L1'')) = [100]
   \<and> map sh_score (history (recalc_interrupted 2 1000 30 demo_store ''L1'')) = [10, 110]
   \<and> map currentScore (leads (recalc_interrupted 2 1000 30 demo_store ''L1'')) = [100]
   \<and> map sh_score (history (snd (recalculateLeadScore 1000 30 demo_store ''L1''))) = [10, 110]
   \<and> map currentScore (leads (snd (recalculateLeadScore 1000 30 demo_store ''L1''))) = [110]"
  by (simp add: recalc_interrupted_def recalc_writes_def engine_defs demo_defs numeral_2_eq_2)

text \<open>
  Claim C7 as amended. \<open>recalculateLeadScore\<close> replaces the ledger and updates the score in
  separate writes, in this order: delete the lead's ScoreHistory rows, insert the
  regenerated rows when there are any, save \<open>Lead.currentScore\<close>. Stopped before the first
  write it leaves the old store; stopped after the first, the old store with the lead's
  rows deleted; stopped after the insertion, the regenerated ledger with the old score;
  only after its last write (at most three) does it leave the new state.
\<close>

theorem recalculation_is_stepwise:
  assumes "Lead_findById (leads s) lid = Some ld"
  shows "recalc_interrupted 0 mx now s lid = s
       \<and> recalc_interrupted 1 mx now s lid =
           s\<lparr>history := ScoreHistory_deleteMany (history s) lid\<rparr>
       \<and> (snd (replay mx now (rules s) lid (Event_find_processed (events s) lid) 0 []) \<noteq> [] \<longrightarrow>
            recalc_interrupted 2 mx now s lid =
              s\<lparr>history := ScoreHistory_deleteMany (history s) lid @
                   snd (replay mx now (rules s) lid (Event_find_processed (events s) lid) 0 [])\<rparr>)
       \<and> (\<forall>k\<ge>3. recalc_interrupted k mx now s lid = snd (recalculateLeadScore mx now s lid))"
proof -
  have a: "recalc_interrupted 0 mx now s lid = s"
    by (simp add: recalc_interrupted_def)
  have b: "recalc_interrupted 1 mx now s lid = s\<lparr>history := ScoreHistory_deleteMany (history s) lid\<rparr>"
    by (simp add: recalc_interrupted_def recalc_writes_found [OF assms])
  have c: "recalc_interrupted 2 mx now s lid =
              s\<lparr>history := ScoreHistory_deleteMany (history s) lid @
                   snd (replay mx now (rules s) lid (Event_find_processed (events s) lid) 0 [])\<rparr>"
    if "snd (replay mx now (rules s) lid (Event_find_processed (events s) lid) 0 []) \<noteq> []"
    using that
    by (simp add: recalc_interrupted_def recalc_writes_found [OF assms] ScoreHistory_insertMany_def
        numeral_2_eq_2)
  have d: "recalc_interrupted k mx now s lid = snd (recalculateLeadScore mx now s lid)" if "3 \<le> k" for k
  proof -
    have "length (recalc_writes mx now s lid) \<le> k"
      using that recalc_writes_length [of mx now s lid] by linarith
    then show ?thesis
      by (simp add: recalc_interrupted_def recalc_writes_complete)
  qed
  show ?thesis
    using a b c d by blast
qed

theorem recalculation_is_stepwise_witness:
  "Lead_findById (leads demo_store) ''L1'' = Some demo_lead
   \<and> recalc_interrupted 0 1000 30 demo_store ''L1'' = demo_store
   \<and> recalc_interrupted 1 1000 30 demo_store ''L1'' = demo_store\<lparr>history := []\<rparr>
   \<and> snd (replay 1000 30 (rules demo_store) ''L1''
            (Event_find_processed (events demo_store) ''L1'') 0 []) \<noteq> []
   \<and> map sh_score (history (recalc_interrupted 2 1000 30 demo_store ''L1'')) = [10, 110]
   \<and> (3::nat) \<le> 3
   \<and> recalc_interrupted 3 1000 30 demo_store ''L1'' =
       snd (recalculateLeadScore 1000 30 demo_store ''L1'')"
proof -
  let ?rows = "snd (replay 1000 30 (rules demo_store) ''L1''
            (Event_find_processed (events demo_store) ''L1'') 0 [])"
  have found: "Lead_findById (leads demo_store) ''L1'' = Some demo_lead"
    by (simp add: demo_defs Lead_findById_def)
  have sc: "map sh_score ?rows = [10, 110]"
    by (simp add: demo_defs Event_find_processed_eq ScoringRule_findOne_def bound_score_def Let_def)
  then have ne: "?rows \<noteq> []"
    by auto
  have del: "ScoreHistory_deleteMany (history demo_store) ''L1'' = []"
    by (simp add: demo_defs ScoreHistory_deleteMany_def)
  note t = recalculation_is_stepwise [OF found, of 1000 30]
  have a: "recalc_interrupted 0 1000 30 demo_store ''L1'' = demo_store"
    using t by blast
  have "recalc_interrupted 1 1000 30 demo_store ''L1'' =
      demo_store\<lparr>history := ScoreHistory_deleteMany (history demo_store) ''L1''\<rparr>"
    using t by blast
  then have b: "recalc_interrupted 1 1000 30 demo_store ''L1'' = demo_store\<lparr>history := []\<rparr>"
    by (simp only: del)
  have "recalc_interrupted 2 1000 30 demo_store ''L1'' =
      demo_store\<lparr>history := ScoreHistory_deleteMany (history demo_store) ''L1'' @ ?rows\<rparr>"
    using t ne by blast
  then have c: "map sh_score (history (recalc_interrupted 2 1000 30 demo_store ''L1'')) = [10, 110]"
    by (simp add: del sc)
  have d: "recalc_interrupted 3 1000 30 demo_store ''L1'' =
       snd (recalculateLeadScore 1000 30 demo_store ''L1'')"
    using t by simp
  show ?thesis
    using found a b ne c d by simp
qed

section \<open>Recalculating twice\<close>

lemma replay_clock:
  "fst (replay mx now rs lid evs t []) = fst (replay mx now' rs lid evs t [])
   \<and> map (\<lambda>h. h\<lparr>sh_createdAt := c\<rparr>) (snd (replay mx now rs lid evs t [])) =
     map (\<lambda>h. h\<lparr>sh_createdAt := c\<rparr>) (snd (replay mx now' rs lid evs t []))"
proof (induction evs arbitrary: t)
  case Nil
  show ?case by simp
next
  case (Cons ev evs)
  show ?case
  proof (cases "ScoringRule_findOne rs (eventType ev)")
    case None
    then show ?thesis using Cons.IH by simp
  next
    case (Some rule)
    show ?thesis
      using Cons.IH [of "bound_score mx (t + points rule)"]
      by (simp del: replay.simps add: replay_Cons_Some [OF Some])
  qed
qed

lemma Lead_save_twice:
  "lead_id a = lead_id b \<Longrightarrow> Lead_save (Lead_save ls a) b = Lead_save ls b"
  by (induction ls) auto

lemma Lead_save_scores:
  "Lead_findById ls (lead_id l) = Some l0 \<Longrightarrow> currentScore l = currentScore l0 \<Longrightarrow>
   map currentScore (Lead_save ls l) = map currentScore ls"
  by (induction ls) (auto simp: Lead_findById_def split: if_splits)

lemma deleteMany_twice:
  "ScoreHistory_deleteMany (ScoreHistory_deleteMany hs lid @ snd (replay mx now rs lid evs t [])) lid =
   ScoreHistory_deleteMany hs lid"
proof -
  have "filter (\<lambda>h. sh_leadId h \<noteq> lid) (snd (replay mx now rs lid evs t [])) = []"
    by (rule replay_filter_other)
  then show ?thesis
    by (simp add: ScoreHistory_deleteMany_def)
qed

text \<open>
  Claim C8 as stated fails: the regenerated rows carry their creation time, so two
  recalculations at clock readings 30 and 40, with nothing in between, leave ScoreHistory
  sequences that differ.
\<close>

theorem createdAt_differs:
  "history (snd (recalculateLeadScore 1000 40 (snd (recalculateLeadScore 1000 30 demo_store ''L1'')) ''L1''))
     \<noteq> history (snd (recalculateLeadScore 1000 30 demo_store ''L1''))
   \<and> map sh_createdAt (history (snd (recalculateLeadScore 1000 30 demo_store ''L1''))) = [30, 30]
   \<and> map sh_createdAt (history (snd (recalculateLeadScore 1000 40
          (snd (recalculateLeadScore 1000 30 demo_store ''L1'')) ''L1''))) = [40, 40]"
  by (simp add: engine_defs demo_defs)

text \<open>
  Claim C8 as amended. Two recalculations of the same lead in succession, with no event
  ingested and no rule changed in between, leave the same \<open>currentScore\<close> for every lead and
  ScoreHistory sequences that are equal in every field except \<open>createdAt\<close>; the second
  returns the first's result with \<open>previousScore\<close> equal to \<open>newScore\<close>; and when both run at
  the same clock reading the two stores are identical.
\<close>

theorem recalculate_twice:
  fixes mx :: int and now1 now2 :: date and s :: store and lid :: object_id
  defines "s1 \<equiv> snd (recalculateLeadScore mx now1 s lid)"
  defines "s2 \<equiv> snd (recalculateLeadScore mx now2 s1 lid)"
  shows "map (\<lambda>h. h\<lparr>sh_createdAt := c\<rparr>) (history s2) = map (\<lambda>h. h\<lparr>sh_createdAt := c\<rparr>) (history s1)
       \<and> map currentScore (leads s2) = map currentScore (leads s1)
       \<and> fst (recalculateLeadScore mx now2 s1 lid) =
           map_sum id (\<lambda>r. r\<lparr>rc_previousScore := rc_newScore r\<rparr>) (fst (recalculateLeadScore mx now1 s lid))
       \<and> (now2 = now1 \<longrightarrow> s2 = s1)"
proof (cases "Lead_findById (leads s) lid")
  case None
  then have "s1 = s"
    unfolding s1_def by (simp add: recalc_missing)
  then show ?thesis
    unfolding s2_def using None by (simp add: recalc_missing)
next
  case (Some ld)
  let ?evs = "Event_find_processed (events s) lid"
  let ?t = "fst (replay mx now1 (rules s) lid ?evs 0 [])"
  let ?ld1 = "ld\<lparr>currentScore := ?t, lead_updatedAt := now1\<rparr>"
  have id1: "lead_id ?ld1 = lid"
    using Lead_findById_id [OF Some] by simp
  have s1: "s1 = s\<lparr>history := ScoreHistory_deleteMany (history s) lid @ snd (replay mx now1 (rules s) lid ?evs 0 []),
                   leads := Lead_save (leads s) ?ld1\<rparr>"
    unfolding s1_def by (simp add: recalc_found [OF Some])
  have f1: "Lead_findById (leads s1) lid = Some ?ld1"
    unfolding s1 using Lead_findById_save [OF Some id1, of lid] by simp
  have t2: "fst (replay mx now2 (rules s) lid ?evs 0 []) = ?t"
    using replay_clock [of mx now2 "rules s" lid ?evs 0 now1] by simp
  have tw: "Lead_save (Lead_save (leads s) ?ld1) (?ld1\<lparr>lead_updatedAt := now2\<rparr>) =
            Lead_save (leads s) (?ld1\<lparr>lead_updatedAt := now2\<rparr>)"
    by (rule Lead_save_twice) simp
  have s2: "s2 = s1\<lparr>history := ScoreHistory_deleteMany (history s) lid @ snd (replay mx now2 (rules s) lid ?evs 0 []),
                    leads := Lead_save (leads s) (?ld1\<lparr>lead_updatedAt := now2\<rparr>)\<rparr>"
    unfolding s2_def recalc_found [OF f1]
    using tw by (simp add: s1 deleteMany_twice t2)
  have h: "map (\<lambda>h. h\<lparr>sh_createdAt := c\<rparr>) (history s2) = map (\<lambda>h. h\<lparr>sh_createdAt := c\<rparr>) (history s1)"
    unfolding s2 using replay_clock [of mx now2 "rules s" lid ?evs 0 now1 c]
    by (simp add: s1)
  have l: "map currentScore (leads s2) = map currentScore (leads s1)"
  proof -
    have "map currentScore (Lead_save (leads s) (?ld1\<lparr>lead_updatedAt := now2\<rparr>)) =
          map currentScore (Lead_save (Lead_save (leads s) ?ld1) (?ld1\<lparr>lead_updatedAt := now2\<rparr>))"
      using tw by simp
    also have "\<dots> = map currentScore (Lead_save (leads s) ?ld1)"
      using f1 Lead_findById_id [OF Some]
      by (intro Lead_save_scores [where ?l0.0 = ?ld1]) (simp_all add: s1)
    finally show ?thesis
      unfolding s2 by (simp add: s1)
  qed
  have r: "fst (recalculateLeadScore mx now2 s1 lid) =
           map_sum id (\<lambda>r. r\<lparr>rc_previousScore := rc_newScore r\<rparr>) (fst (recalculateLeadScore mx now1 s lid))"
    unfolding recalc_found [OF f1] recalc_found [OF Some]
    by (simp add: s1 t2)
  have e: "s2 = s1" if "now2 = now1"
    unfolding s2 using that by (simp add: s1)
  show ?thesis
    using h l r e by blast
qed

theorem recalculate_twice_witness:
  "(30::int) = 30
   \<and> snd (recalculateLeadScore 1000 30 (snd (recalculateLeadScore 1000 30 demo_store ''L1'')) ''L1'') =
       snd (recalculateLeadScore 1000 30 demo_store ''L1'')
   \<and> map currentScore
        (leads (snd (recalculateLeadScore 1000 30 (snd (recalculateLeadScore 1000 30 demo_store ''L1'')) ''L1''))) =
       [110]"
proof -
  note t = recalculate_twice [where mx = 1000 and ?now1.0 = 30 and ?now2.0 = 30 and s = demo_store
      and lid = "''L1''"]
  have a: "snd (recalculateLeadScore 1000 30 (snd (recalculateLeadScore 1000 30 demo_store ''L1'')) ''L1'') =
       snd (recalculateLeadScore 1000 30 demo_store ''L1'')"
    using t by blast
  have "map currentScore (leads (snd (recalculateLeadScore 1000 30 demo_store ''L1''))) = [110]"
    by (simp add: engine_defs demo_defs)
  then show ?thesis
    using a by simp
qed

section \<open>The score and the tail of the ledger\<close>

lemma tail_row_sorted:
  "sorted (map sh_timestamp (a # hs)) \<Longrightarrow> tail_row (Some a) hs = Some (last (a # hs))"
proof (induction hs arbitrary: a)
  case Nil
  show ?case by simp
next
  case (Cons h hs)
  have "sh_timestamp a \<le> sh_timestamp h"
    using Cons.prems by simp
  moreover have "sorted (map sh_timestamp (h # hs))"
    using Cons.prems by simp
  ultimately show ?case
    using Cons.IH [of h] by simp
qed

lemma ledger_score_sorted:
  assumes "sorted (map sh_timestamp rows)"
    and "filter (\<lambda>h. sh_leadId h = lid) hs = rows"
  shows "ledger_score hs lid = last (0 # map sh_score rows)"
proof (cases rows)
  case Nil
  then show ?thesis using assms(2) by (simp add: ledger_score_def)
next
  case (Cons a rs)
  have "tail_row None rows = Some (last rows)"
    using assms(1) tail_row_sorted [of a rs] unfolding Cons by simp
  then show ?thesis
    using assms(2) Cons by (simp add: ledger_score_def last_map)
qed

lemma replay_rows_sorted:
  "sorted (map timestamp evs) \<Longrightarrow>
   sorted (map sh_timestamp (snd (replay mx now rs lid evs t [])))"
proof -
  assume s: "sorted (map timestamp evs)"
  have "map sh_timestamp (snd (replay mx now rs lid evs t [])) =
        map timestamp (scored_events rs evs)"
    using arg_cong [OF replay_rows_shape [of mx now rs lid evs t], of "map (\<lambda>(a, b, c, d, e). d)"]
    by (simp add: comp_def)
  then show ?thesis
    using s by (simp add: scored_events_def sorted_filter)
qed

lemma recalc_establishes:
  "score_matches_ledger (snd (recalculateLeadScore mx now s lid)) lid"
proof (cases "Lead_findById (leads s) lid")
  case None
  then show ?thesis by (simp add: recalc_missing score_matches_ledger_def)
next
  case (Some ld)
  let ?evs = "Event_find_processed (events s) lid"
  let ?rows = "snd (replay mx now (rules s) lid ?evs 0 [])"
  let ?s' = "snd (recalculateLeadScore mx now s lid)"
  have srt: "sorted (map sh_timestamp ?rows)"
    by (rule replay_rows_sorted) (simp add: Event_find_processed_eq)
  have rows: "filter (\<lambda>h. sh_leadId h = lid) (history ?s') = ?rows"
    by (simp add: recalc_found [OF Some] replay_filter_same)
  have ls: "ledger_score (history ?s') lid = last (0 # map sh_score ?rows)"
    using srt rows by (rule ledger_score_sorted)
  have "last (0 # map sh_score ?rows) =
        last (0 # running_scores mx 0 (List.map_filter (rule_points (rules s)) ?evs))"
    by (simp only: replay_scores)
  then show ?thesis
    unfolding score_matches_ledger_def recalc_lead [OF Some] ls
    by simp
qed

lemma recalc_other_lead:
  assumes "k \<noteq> lid"
  shows "score_matches_ledger (snd (recalculateLeadScore mx now s lid)) k = score_matches_ledger s k"
proof (cases "Lead_findById (leads s) lid")
  case None
  then show ?thesis by (simp add: recalc_missing)
next
  case (Some ld)
  let ?rows = "snd (replay mx now (rules s) lid (Event_find_processed (events s) lid) 0 [])"
  have "filter (\<lambda>h. sh_leadId h = k) ?rows = []"
    using assms by (auto simp: filter_empty_conv dest: replay_leadId)
  moreover have "filter (\<lambda>h. sh_leadId h = k) (ScoreHistory_deleteMany (history s) lid) =
      filter (\<lambda>h. sh_leadId h = k) (history s)"
    using assms unfolding ScoreHistory_deleteMany_def by (simp, intro filter_cong, auto)
  ultimately have h: "ledger_score (history (snd (recalculateLeadScore mx now s lid))) k =
      ledger_score (history s) k"
    by (simp add: recalc_found [OF Some] ledger_score_def)
  have id: "lead_id (ld\<lparr>currentScore := c, lead_updatedAt := now\<rparr>) = lid" for c
    using Lead_findById_id [OF Some] by simp
  have l: "Lead_findById (leads (snd (recalculateLeadScore mx now s lid))) k = Lead_findById (leads s) k"
    using assms Lead_findById_save [OF Some id, of _ k]
    by (simp add: recalc_found [OF Some])
  show ?thesis
    unfolding score_matches_ledger_def h l ..
qed

lemma recalc_keeps:
  "score_matches_ledger s k \<Longrightarrow> score_matches_ledger (snd (recalculateLeadScore mx now s lid)) k"
  by (cases "k = lid") (simp_all add: recalc_establishes recalc_other_lead)

lemma score_matches_ledger_cong:
  "leads s' = leads s \<Longrightarrow> history s' = history s \<Longrightarrow>
   score_matches_ledger s' k = score_matches_ledger s k"
  by (simp add: score_matches_ledger_def split: option.splits)

text \<open>
  Claim C6 as stated fails for operations that stop partway. A recalculation interrupted
  after its first write leaves the lead with score 100 and no ScoreHistory entry, where the
  claim asks for 0. (So does the in-order path of \<open>processEvent\<close>, which saves the score
  80 and throws before it writes the entry.) Both stores satisfied the claim beforehand.
\<close>

theorem score_differs_from_ledger:
  "score_matches_ledger demo_store ''L1''
   \<and> map currentScore (leads (recalc_interrupted 1 1000 30 demo_store ''L1'')) = [100]
   \<and> ledger_score (history (recalc_interrupted 1 1000 30 demo_store ''L1'')) ''L1'' = 0
   \<and> score_matches_ledger fresh_store ''L2''
   \<and> map currentScore (leads (snd (processEvent 100 1 fresh_store (purchase_at ''b'' 6)))) = [80]
   \<and> ledger_score (history (snd (processEvent 100 1 fresh_store (purchase_at ''b'' 6)))) ''L2'' = 0"
  by (simp add: score_matches_ledger_def ledger_score_def recalc_interrupted_def recalc_writes_def
      engine_defs demo_defs fresh_defs)

text \<open>
  Claim C6 as amended. After \<open>recalculateLeadScore\<close> has run to its end, the
  \<open>currentScore\<close> of its lead equals the score of that lead's ScoreHistory entry with the
  greatest timestamp, the last one in the collection among equal timestamps, or 0 if the
  lead has none; and every lead for which this held before still has it. A call of
  \<open>processEvent\<close> that returns (duplicate or out of order), or that throws before its
  first write (unknown lead, no active rule, a new event record that its schema
  rejects), keeps it for every lead. Nothing is said about operations that stop between
  two writes.
\<close>

theorem score_matches_ledger_kept:
  assumes "score_matches_ledger s k"
  shows "score_matches_ledger (snd (recalculateLeadScore mx now s lid)) lid
       \<and> score_matches_ledger (snd (recalculateLeadScore mx now s lid)) k
       \<and> (fst (processEvent mx now s d) \<noteq> Inl (ReferenceError ''change'') \<longrightarrow>
            score_matches_ledger (snd (processEvent mx now s d)) k)"
proof -
  have pe: "score_matches_ledger (snd (processEvent mx now s d)) k"
    if ok: "fst (processEvent mx now s d) \<noteq> Inl (ReferenceError ''change'')"
  proof (cases "is_duplicate s d")
    case True
    then show ?thesis using assms by (simp add: processEvent_duplicate)
  next
    case nd: False
    show ?thesis
    proof (cases "Lead_findById (leads s) (ed_leadId d)")
      case None
      then show ?thesis using assms nd by (simp add: processEvent_no_lead)
    next
      case (Some ld)
      note lf = Some
      show ?thesis
      proof (cases "ScoringRule_findOne (rules s) (ed_eventType d)")
        case None
        then show ?thesis using assms nd lf by (simp add: processEvent_no_rule)
      next
        case (Some rule)
        show ?thesis
        proof (cases "event_accepted now s d")
          case False
          then show ?thesis
            using assms nd lf Some by (simp add: processEvent_rejected)
        next
          case acc: True
          have oo: "isOutOfOrder (ledgered now s d) (ed_leadId d) (the_event now s d)"
            using ok processEvent_scoring [OF nd lf Some acc, where mx = mx]
            by (auto simp: in_order_path_eq split: if_splits)
          have eq: "processEvent mx now s d =
              out_of_order_path mx now (ledgered now s d) d ld (the_event now s d)"
            using processEvent_scoring [OF nd lf Some acc, where mx = mx] oo by simp
          have m: "score_matches_ledger (marked_processed now s d) k"
            using assms score_matches_ledger_cong [of "marked_processed now s d" s k] by simp
          have "score_matches_ledger
              (snd (recalculateLeadScore mx now (marked_processed now s d) (ed_leadId d))) k"
            using m by (rule recalc_keeps)
          then show ?thesis
            unfolding eq out_of_order_path_eq [OF lf]
            by (simp add: score_matches_ledger_def split: option.splits)
        qed
      qed
    qed
  qed
  show ?thesis
    using assms pe by (simp add: recalc_establishes recalc_keeps)
qed

theorem score_matches_ledger_kept_witness:
  "score_matches_ledger demo_store ''L1''
   \<and> fst (processEvent 1000 30 demo_store (demo_open_at ''e3'' 9)) \<noteq> Inl (ReferenceError ''change'')
   \<and> score_matches_ledger (snd (processEvent 1000 30 demo_store (demo_open_at ''e3'' 9))) ''L1''
   \<and> score_matches_ledger (snd (recalculateLeadScore 1000 30 demo_store ''L1'')) ''L1''
   \<and> ledger_score (history (snd (recalculateLeadScore 1000 30 demo_store ''L1''))) ''L1'' = 110"
proof -
  let ?d = "demo_open_at ''e3'' 9"
  have h: "score_matches_ledger demo_store ''L1''"
    by (simp add: score_matches_ledger_def ledger_score_def demo_defs Lead_findById_def)
  have r: "fst (processEvent 1000 30 demo_store ?d) = Inr (OutOfOrderR ''L1'' 100 120 20 ''email_open'')"
    by (simp add: engine_defs demo_defs demo_open_at_def)
  then have ok: "fst (processEvent 1000 30 demo_store ?d) \<noteq> Inl (ReferenceError ''change'')"
    by simp
  note t = score_matches_ledger_kept [OF h, of 1000 30 "''L1''" ?d]
  have a: "score_matches_ledger (snd (processEvent 1000 30 demo_store ?d)) ''L1''"
    using t ok by blast
  have b: "score_matches_ledger (snd (recalculateLeadScore 1000 30 demo_store ''L1'')) ''L1''"
    using t by blast
  have c: "ledger_score (history (snd (recalculateLeadScore 1000 30 demo_store ''L1''))) ''L1'' = 110"
    by (simp add: ledger_score_def engine_defs demo_defs)
  show ?thesis
    using h ok a b c by blast
qed

end
